theory Spec2Isabelle
  imports Complex_Main "HOL-Library.Multiset"
begin

section \<open>Python strings\<close>

text \<open>
  A Python \<open>str\<close> is modelled as a \<open>string\<close>, one \<open>char\<close> per code point, so the
  model covers the code points below 256. \<open>str.strip()\<close> removes the characters for which
  \<open>str.isspace()\<close> holds; below 256 these are the ones listed in \<open>isspace\<close>.
\<close>

definition isspace :: "char \<Rightarrow> bool" where
  "isspace c = (c \<in> set [CHR 0x09, CHR 0x0A, CHR 0x0B, CHR 0x0C, CHR 0x0D,
                           CHR 0x1C, CHR 0x1D, CHR 0x1E, CHR 0x1F, CHR 0x20, CHR 0x85, CHR 0xA0])"

definition lstrip_with :: "(char \<Rightarrow> bool) \<Rightarrow> string \<Rightarrow> string" where
  "lstrip_with p s = dropWhile p s"

definition rstrip_with :: "(char \<Rightarrow> bool) \<Rightarrow> string \<Rightarrow> string" where
  "rstrip_with p s = rev (dropWhile p (rev s))"

definition str_strip :: "string \<Rightarrow> string" where
  \<comment> \<open>\<open>s.strip()\<close>\<close>
  "str_strip s = rstrip_with isspace (lstrip_with isspace s)"

definition str_rstrip :: "string \<Rightarrow> string \<Rightarrow> string" where
  \<comment> \<open>\<open>s.rstrip(chars)\<close>\<close>
  "str_rstrip chars s = rstrip_with (\<lambda>c. c \<in> set chars) s"

definition str_replace :: "char \<Rightarrow> char \<Rightarrow> string \<Rightarrow> string" where
  \<comment> \<open>\<open>s.replace(old, new)\<close> for one-character \<open>old\<close> and \<open>new\<close>\<close>
  "str_replace old new s = map (\<lambda>c. if c = old then new else c) s"

fun startswith :: "string \<Rightarrow> string \<Rightarrow> bool" where
  "startswith s [] = True"
| "startswith [] (p # ps) = False"
| "startswith (c # s) (p # ps) = (c = p \<and> startswith s ps)"

fun str_contains :: "string \<Rightarrow> string \<Rightarrow> bool" where
  \<comment> \<open>\<open>sub in s\<close>\<close>
  "str_contains [] sub = (sub = [])"
| "str_contains (c # s) sub = (startswith (c # s) sub \<or> str_contains s sub)"

fun str_join :: "string \<Rightarrow> string list \<Rightarrow> string" where
  \<comment> \<open>\<open>sep.join(xs)\<close>\<close>
  "str_join sep [] = []"
| "str_join sep [x] = x"
| "str_join sep (x # y # ys) = x @ sep @ str_join sep (y # ys)"

definition digit_char :: "nat \<Rightarrow> char" where
  "digit_char d = char_of (48 + d)"

fun str_nat :: "nat \<Rightarrow> string" where
  \<comment> \<open>\<open>str(n)\<close> of a non-negative integer: its decimal digits\<close>
  "str_nat n = (if n < 10 then [digit_char n] else str_nat (n div 10) @ [digit_char (n mod 10)])"

declare str_nat.simps [simp del]

definition str_int :: "int \<Rightarrow> string" where
  "str_int i = (if i < 0 then CHR ''-'' # str_nat (nat (- i)) else str_nat (nat i))"

section \<open>sanitize_filename\<close>

definition invalid_chars :: string where
  "invalid_chars = [CHR ''<'', CHR ''>'', CHR '':'', CHR 0x22, CHR ''/'', CHR 0x5C,
                    CHR ''|'', CHR ''?'', CHR ''*'']"

definition sanitize_filename :: "string \<Rightarrow> string" where
  "sanitize_filename name =
     (let name = fold (\<lambda>char name. str_replace char CHR ''_'' name) invalid_chars name;
          name = str_rstrip ''.'' (str_strip name)
      in name)"

section \<open>Exceptions and dictionaries\<close>

text \<open>
  An exception is its class and the text \<open>str(e)\<close> gives. Every class below derives from
  \<open>Exception\<close>, so an \<open>except Exception\<close> clause catches each of them.
\<close>

datatype exn_class = DownloadCancelled | FileNotFoundError | OSError | ValueError
  | AttributeError | TypeError | NameError | DownloadError

type_synonym pyexn = "exn_class \<times> string"

definition str_exn :: "pyexn \<Rightarrow> string" where
  "str_exn e = snd e"

text \<open>
  The text of a \<open>DownloadCancelled()\<close> raised without a message comes from yt-dlp, which is
  not part of the sources; it is yt-dlp's class default.
\<close>

definition download_cancelled_msg :: string where
  "download_cancelled_msg = ''The download was cancelled''"

text \<open>
  A key of a dictionary is absent, holds \<open>None\<close>, or holds a value: \<open>d.get(k, default)\<close>
  gives the default only for an absent key.
\<close>

datatype 'a field = Absent | PyNone | Val 'a

text \<open>A video entry as the code reads it: the keys \<open>id\<close>, \<open>url\<close> and \<open>title\<close>.\<close>

record video =
  v_id :: "string field"
  v_url :: "string field"
  v_title :: "string field"

text \<open>
  The dictionary \<open>extract_info\<close> returns: a video's keys and, for a playlist,
  \<open>entries\<close>.
\<close>

record info = video +
  i_entries :: "video list field"

text \<open>The dictionary \<open>get_playlist_info\<close> returns, which is also a queue entry.\<close>

record playlist_info =
  title :: string
  url :: string
  total :: nat
  entries :: "video list"

section \<open>get_playlist_info\<close>

text \<open>What one call of \<open>ydl.extract_info(url, download=False)\<close> does.\<close>

datatype extract_outcome = Raises pyexn | Returns "info option"

text \<open>
  The body of the \<open>try\<close>: \<open>Inl\<close> is an exception raised inside it. \<open>info.get\<close> on
  \<open>None\<close> raises AttributeError, \<open>len(None)\<close> raises TypeError, and
  \<open>sanitize_filename(None)\<close> raises AttributeError.
\<close>

definition try_extract :: "string \<Rightarrow> extract_outcome \<Rightarrow> pyexn + playlist_info" where
  "try_extract u outcome =
     (case outcome of
        Raises e \<Rightarrow> Inl e
      | Returns None \<Rightarrow> Inl (AttributeError, ''NoneType object has no attribute get'')
      | Returns (Some i) \<Rightarrow>
          (case v_title i of
             PyNone \<Rightarrow> Inl (AttributeError, ''NoneType object has no attribute replace'')
           | t \<Rightarrow>
              (case i_entries i of
                 PyNone \<Rightarrow> Inl (TypeError, ''object of type NoneType has no len()'')
               | e \<Rightarrow>
                  (let es = (case e of Val xs \<Rightarrow> xs | _ \<Rightarrow> []);
                       name = (case t of Val s \<Rightarrow> s | _ \<Rightarrow> u)
                   in Inr \<lparr> title = sanitize_filename name, url = u,
                            total = (if length es = 0 then 1 else length es),
                            entries = (if es \<noteq> [] then es else [video.truncate i]) \<rparr>))))"

text \<open>
  What the resolver does besides returning: calls of \<open>extract_info\<close> and of
  \<open>time.sleep\<close> (seconds).
\<close>

datatype effect = ExtractInfo | Sleep nat

text \<open>
  The \<open>for _ in range(3)\<close> loop over the attempts still to make; \<open>outcome k\<close> is
  what the \<open>k\<close>-th call of \<open>extract_info\<close> does. \<open>None\<close> means the loop ran out.
\<close>

fun resolve_loop :: "string \<Rightarrow> (nat \<Rightarrow> extract_outcome) \<Rightarrow> nat list
    \<Rightarrow> effect list \<times> playlist_info option" where
  "resolve_loop u outcome [] = ([], None)"
| "resolve_loop u outcome (k # ks) =
     (case try_extract u (outcome k) of
        Inr r \<Rightarrow> ([ExtractInfo], Some r)
      | Inl e \<Rightarrow> (let (effs, r) = resolve_loop u outcome ks
                  in (ExtractInfo # Sleep 1 # effs, r)))"

definition get_playlist_info :: "string \<Rightarrow> (nat \<Rightarrow> extract_outcome)
    \<Rightarrow> effect list \<times> playlist_info" where
  "get_playlist_info u outcome =
     (case resolve_loop u outcome [0 ..< 3] of
        (effs, Some r) \<Rightarrow> (effs, r)
      | (effs, None) \<Rightarrow>
          (effs, \<lparr> title = sanitize_filename u, url = u, total = 0, entries = [] \<rparr>))"

section \<open>The job's folder\<close>

text \<open>
  The file system is the list of the paths that exist. The loop
  \<open>while os.path.exists(playlist_folder)\<close> carries \<open>playlist_folder\<close> and \<open>suffix\<close>.
\<close>

definition suffixed :: "string \<Rightarrow> nat \<Rightarrow> string" where
  \<comment> \<open>\<open>f"{original_folder}_{suffix}"\<close>\<close>
  "suffixed original_folder suffix = original_folder @ ''_'' @ str_nat suffix"

text \<open>
  \<open>os.path.join(base_folder, title)\<close> in its POSIX form, for two components. A sanitized
  title holds no separator, so only the last two cases arise for the job's folder.
\<close>

definition path_join :: "string \<Rightarrow> string \<Rightarrow> string" where
  "path_join a b =
     (if startswith b ''/'' then b
      else if a = [] \<or> last a = CHR ''/'' then a @ b
      else a @ ''/'' @ b)"

function folder_loop :: "string list \<Rightarrow> string \<Rightarrow> string \<Rightarrow> nat \<Rightarrow> string" where
  "folder_loop fs original_folder playlist_folder suffix =
     (if playlist_folder \<in> set fs
      then folder_loop fs original_folder (suffixed original_folder suffix) (suffix + 1)
      else playlist_folder)"
  by pat_completeness auto
termination
proof -
  let ?taken = "\<lambda>(fs :: string list) (p :: string) (n :: nat).
                  {k. n \<le> k \<and> suffixed p k \<in> set fs}"
  let ?m = "\<lambda>(fs, p, f, n). card (?taken fs p n) + (if f \<in> set fs then 1 else (0::nat))"
  have digit_inj: "a = b" if "a < 10" "b < 10" "digit_char a = digit_char b" for a b
  proof -
    from that(3) have "(of_char (char_of (48 + a)) :: nat) = of_char (char_of (48 + b))"
      by (simp add: digit_char_def)
    then have "(48 + a) mod 256 = (48 + b) mod 256" by simp
    with that(1,2) show ?thesis by simp
  qed
  have nonempty: "str_nat n \<noteq> []" for n
    by (subst str_nat.simps) simp
  have str_inj: "n = m" if "str_nat n = str_nat m" for n m
    using that
  proof (induction n arbitrary: m rule: str_nat.induct)
    case (1 n)
    show ?case
    proof (cases "n < 10")
      case small_n: True
      show ?thesis
      proof (cases "m < 10")
        case True
        with small_n "1.prems" have "[digit_char n] = [digit_char m]"
          by (subst (asm) str_nat.simps, subst (asm) (2) str_nat.simps) simp
        with small_n True show ?thesis
          by (simp add: digit_inj)
      next
        case False
        then have "str_nat m = str_nat (m div 10) @ [digit_char (m mod 10)]"
          by (subst str_nat.simps) simp
        moreover from small_n have "str_nat n = [digit_char n]"
          by (subst str_nat.simps) simp
        ultimately show ?thesis using "1.prems" nonempty [of "m div 10"] by simp
      qed
    next
      case big_n: False
      then have n_eq: "str_nat n = str_nat (n div 10) @ [digit_char (n mod 10)]"
        by (subst str_nat.simps) simp
      show ?thesis
      proof (cases "m < 10")
        case True
        then have "str_nat m = [digit_char m]"
          by (subst str_nat.simps) simp
        with n_eq "1.prems" nonempty [of "n div 10"] show ?thesis by simp
      next
        case False
        then have "str_nat m = str_nat (m div 10) @ [digit_char (m mod 10)]"
          by (subst str_nat.simps) simp
        with n_eq "1.prems" have a: "str_nat (n div 10) = str_nat (m div 10)"
          and b: "digit_char (n mod 10) = digit_char (m mod 10)" by simp_all
        from "1.IH" [OF big_n a] have "n div 10 = m div 10" .
        moreover from b have "n mod 10 = m mod 10" by (simp add: digit_inj)
        ultimately show ?thesis by (metis div_mult_mod_eq)
      qed
    qed
  qed
  have fin: "finite (?taken fs p n)" for fs p n
  proof -
    have "inj (suffixed p)"
      by (rule injI) (simp add: suffixed_def str_inj)
    then have "finite (suffixed p -` set fs)" by (simp add: finite_vimageI)
    moreover have "?taken fs p n \<subseteq> suffixed p -` set fs" by auto
    ultimately show ?thesis by (rule rev_finite_subset)
  qed
  have step: "card (?taken fs p (Suc n)) + (if suffixed p n \<in> set fs then 1 else 0)
                = card (?taken fs p n)" for fs p n
  proof (cases "suffixed p n \<in> set fs")
    case True
    then have "?taken fs p n = insert n (?taken fs p (Suc n))"
      by (auto simp: le_Suc_eq)
    moreover have "n \<notin> ?taken fs p (Suc n)" by simp
    ultimately show ?thesis using True fin by simp
  next
    case False
    then have "\<And>k. suffixed p k \<in> set fs \<Longrightarrow> k \<noteq> n" by auto
    then have "?taken fs p n = ?taken fs p (Suc n)"
      by (auto simp: Suc_le_eq le_less)
    with False show ?thesis by simp
  qed
  show ?thesis
  proof (relation "measure ?m")
    show "wf (measure ?m)" by simp
  next
    fix fs :: "string list" and p f :: string and n :: nat
    assume "f \<in> set fs"
    then show "((fs, p, suffixed p n, n + 1), fs, p, f, n) \<in> measure ?m"
      using step [of n p fs] by simp
  qed
qed

declare folder_loop.simps [simp del]

text \<open>
  \<open>os.makedirs(playlist_folder)\<close>: raises when the path exists or when the operating system
  refuses (\<open>refusal\<close>), and otherwise adds the path. The intermediate directories it may
  create are not tracked.
\<close>

definition makedirs :: "string list \<Rightarrow> pyexn option \<Rightarrow> string \<Rightarrow> pyexn + string list" where
  "makedirs fs refusal path =
     (if path \<in> set fs then Inl (OSError, ''File exists: '' @ path)
      else case refusal of Some e \<Rightarrow> Inl e | None \<Rightarrow> Inr (path # fs))"

definition unique_folder :: "string list \<Rightarrow> string \<Rightarrow> string \<Rightarrow> string" where
  \<comment> \<open>the lines from \<open>playlist_folder = os.path.join(...)\<close> to the end of the loop\<close>
  "unique_folder fs base_folder job_title =
     (let playlist_folder = path_join base_folder job_title;
          suffix = 1;
          original_folder = playlist_folder
      in folder_loop fs original_folder playlist_folder suffix)"

section \<open>Messages and the progress hook\<close>

text \<open>A message on the queue is the pair the code puts: its type and its value.\<close>

datatype msg_val = VNone | VStr string | VInt int | VInfo playlist_info

type_synonym msg = "string \<times> msg_val"

definition status_msg :: "string \<Rightarrow> msg" where
  "status_msg t = (''-STATUS-'', VStr t)"

definition file_progress_msg :: "int \<Rightarrow> msg" where
  "file_progress_msg p = (''-FILE-PROGRESS-'', VInt p)"

definition processed_msg :: msg where
  "processed_msg = (''-PROCESSED-PROGRESS-'', VInt 1)"

definition downloaded_msg :: msg where
  "downloaded_msg = (''-DOWNLOADED-PROGRESS-'', VInt 1)"

definition queue_complete_msg :: "playlist_info \<Rightarrow> msg" where
  "queue_complete_msg i = (''-QUEUE-COMPLETE-'', VInfo i)"

definition thread_end_msg :: msg where
  "thread_end_msg = (''-THREAD-END-'', VNone)"

text \<open>
  Numbers are the rationals they denote. The two places where the code computes in
  floating point are parameters of the model: \<open>percent_of fp a b\<close> stands for
  \<open>int((a / b) * 100)\<close> and \<open>too_soon fp now last_time\<close> for
  \<open>now - last_progress_time < 0.1\<close>, both as
  the interpreter evaluates them in doubles. \<open>exact_ops\<close> computes them without rounding.
\<close>

record float_ops =
  percent_of :: "rat \<Rightarrow> rat \<Rightarrow> int"
  too_soon :: "rat \<Rightarrow> rat \<Rightarrow> bool"

definition py_int :: "rat \<Rightarrow> int" where
  \<comment> \<open>\<open>int(x)\<close>: truncation towards zero\<close>
  "py_int x = (if 0 \<le> x then \<lfloor>x\<rfloor> else \<lceil>x\<rceil>)"

definition exact_ops :: float_ops where
  "exact_ops = \<lparr> percent_of = (\<lambda>a b. py_int (a / b * 100)),
                 too_soon = (\<lambda>now last_time. now - last_time < 1 / 10) \<rparr>"

text \<open>The dictionary yt-dlp passes to a progress hook, with the keys the hook reads.\<close>

record progress_dict =
  d_status :: "string field"
  d_percent :: "rat field"
  d_downloaded_bytes :: "rat field"
  d_total_bytes :: "rat field"
  d_total_bytes_estimate :: "rat field"

definition dict_get :: "'a field \<Rightarrow> 'a field \<Rightarrow> 'a field" where
  \<comment> \<open>\<open>d.get(k, dflt)\<close>; \<open>d.get(k)\<close> is \<open>dict_get f PyNone\<close>\<close>
  "dict_get f dflt = (case f of Absent \<Rightarrow> dflt | x \<Rightarrow> x)"

definition truthy :: "rat field \<Rightarrow> bool" where
  "truthy f = (case f of Val x \<Rightarrow> x \<noteq> 0 | _ \<Rightarrow> False)"

definition py_or :: "rat field \<Rightarrow> rat field \<Rightarrow> rat field" where
  \<comment> \<open>\<open>a or b\<close>\<close>
  "py_or a b = (if truthy a then a else b)"

text \<open>
  The lines under \<open># Calculate progress percentage\<close>, the same in both hooks. Dividing
  \<open>None\<close> raises TypeError; the conditional expression tests \<open>total_bytes\<close> first.
\<close>

definition file_progress :: "float_ops \<Rightarrow> progress_dict \<Rightarrow> pyexn + int" where
  "file_progress fp d =
     (let percent = dict_get (d_percent d) PyNone
      in case percent of
           Val p \<Rightarrow> Inr (py_int p)
         | _ \<Rightarrow>
            (let downloaded_bytes = dict_get (d_downloaded_bytes d) (Val 0);
                 total_bytes = py_or (dict_get (d_total_bytes d) PyNone)
                                     (dict_get (d_total_bytes_estimate d) (Val 1))
             in case total_bytes of
                  Val t \<Rightarrow>
                    (if t \<noteq> 0
                     then (case downloaded_bytes of
                             Val b \<Rightarrow> Inr (percent_of fp b t)
                           | _ \<Rightarrow> Inl (TypeError, ''unsupported operand type(s) for /''))
                     else Inr 0)
                | _ \<Rightarrow> Inr 0))"

text \<open>
  One call of \<open>progress_hook(d)\<close>: \<open>cancel_set\<close> is \<open>cancel_event.is_set()\<close>, \<open>now\<close> is
  \<open>time.monotonic()\<close>, \<open>last_time\<close> is \<open>last_progress_time\<close>. It raises, or it puts messages
  and leaves a new \<open>last_progress_time\<close>.
\<close>

datatype hook_result = HookRaises pyexn | HookDone "msg list" rat

definition progress_hook :: "float_ops \<Rightarrow> bool \<Rightarrow> rat \<Rightarrow> rat \<Rightarrow> progress_dict \<Rightarrow> hook_result" where
  "progress_hook fp cancel_set now last_time d =
     (if cancel_set then HookRaises (DownloadCancelled, download_cancelled_msg)
      else let status = dict_get (d_status d) PyNone
           in if status = Val ''downloading'' then
                (if too_soon fp now last_time then HookDone [] last_time
                 else case file_progress fp d of
                        Inl e \<Rightarrow> HookRaises e
                      | Inr p \<Rightarrow> HookDone [file_progress_msg p] now)
              else if status = Val ''finished'' then HookDone [file_progress_msg 100] last_time
              else HookDone [] last_time)"

section \<open>One download attempt\<close>

text \<open>
  What \<open>ydl.download([video_url])\<close> does in one attempt: it calls the hook a number of
  times and then returns or raises. An exception of the hook ends the download with that
  exception.
\<close>

record hook_call =
  hc_cancel :: bool
  hc_now :: rat
  hc_d :: progress_dict

record attempt =
  a_calls :: "hook_call list"
  a_raises :: "pyexn option"

fun run_hooks :: "float_ops \<Rightarrow> rat \<Rightarrow> hook_call list \<Rightarrow> msg list \<times> pyexn option" where
  "run_hooks fp last_time [] = ([], None)"
| "run_hooks fp last_time (c # cs) =
     (case progress_hook fp (hc_cancel c) (hc_now c) last_time (hc_d c) of
        HookRaises e \<Rightarrow> ([], Some e)
      | HookDone ms last_time' \<Rightarrow>
          (let (ms', r) = run_hooks fp last_time' cs in (ms @ ms', r)))"

definition ydl_download :: "float_ops \<Rightarrow> attempt \<Rightarrow> msg list \<times> pyexn option" where
  \<comment> \<open>\<open>last_progress_time = 0\<close> at the start of each attempt\<close>
  "ydl_download fp a =
     (case run_hooks fp 0 (a_calls a) of
        (ms, Some e) \<Rightarrow> (ms, Some e)
      | (ms, None) \<Rightarrow> (ms, a_raises a))"

section \<open>The environment of a job\<close>

text \<open>
  The options handed to yt-dlp, as far as the job sets them from its arguments
  (\<open>COMMON_OPTS\<close> is constant). \<open>extract_audio\<close> says whether the
  \<open>postprocessors\<close> key is there.
\<close>

record ydl_opts =
  ffmpeg_location :: string
  format :: string
  extract_audio :: bool
  outtmpl :: string
  merge_output_format :: "string option"

definition make_opts :: "string \<Rightarrow> string \<Rightarrow> string \<Rightarrow> ydl_opts" where
  "make_opts ffmpeg format_choice playlist_folder =
     \<lparr> ffmpeg_location = ffmpeg,
       format = (if format_choice = ''mp4''
                 then ''bestvideo[ext=mp4]+bestaudio[ext=m4a]/best[ext=mp4]''
                 else ''bestaudio/best''),
       extract_audio = (format_choice = ''mp3''),
       outtmpl = path_join playlist_folder ''%(title)s.%(ext)s'',
       merge_output_format = (if format_choice = ''mp4'' then Some ''mp4'' else None) \<rparr>"

text \<open>
  Everything a job reads from outside: the paths that exist when it starts, whether
  \<open>os.makedirs\<close> is refused, where ffmpeg is looked for and whether the \<open>k\<close>-th look
  finds it, what \<open>cancel_event.is_set()\<close> gives before video \<open>i\<close> and before attempt
  \<open>k\<close> of video \<open>i\<close>, what the download of video \<open>i\<close> does in attempt \<open>k\<close>, and (for
  the thread pool) which running worker makes the \<open>n\<close>-th step.
\<close>

record job_env =
  je_fs :: "string list"
  je_makedirs_refusal :: "pyexn option"
  je_ffmpeg_path :: string
  je_ffmpeg_found :: "nat \<Rightarrow> bool"
  je_cancel_video :: "nat \<Rightarrow> bool"
  je_cancel_attempt :: "nat \<Rightarrow> nat \<Rightarrow> bool"
  je_download :: "ydl_opts \<Rightarrow> string field \<Rightarrow> nat \<Rightarrow> nat \<Rightarrow> attempt"
  je_sched :: "nat \<Rightarrow> nat"

definition get_ffmpeg_path :: "string \<Rightarrow> bool \<Rightarrow> pyexn + string" where
  "get_ffmpeg_path ffmpeg_path found =
     (if \<not> found then Inl (FileNotFoundError, ''FFmpeg not found at: '' @ ffmpeg_path)
      else Inr ffmpeg_path)"

definition fmt_field :: "string field \<Rightarrow> string" where
  \<comment> \<open>a value inside an f-string\<close>
  "fmt_field f = (case f of Val t \<Rightarrow> t | _ \<Rightarrow> ''None'')"

definition quoted :: "string \<Rightarrow> string" where
  \<comment> \<open>\<open>'{t}'\<close> inside an f-string\<close>
  "quoted t = [CHR 0x27] @ t @ [CHR 0x27]"

definition video_url_of :: "video \<Rightarrow> string field" where
  "video_url_of v =
     (let video_id = dict_get (v_id v) (Val [])
      in case video_id of
           Val i \<Rightarrow> (if i \<noteq> [] then Val (''https://www.youtube.com/watch?v='' @ i)
                     else dict_get (v_url v) (Val []))
         | _ \<Rightarrow> dict_get (v_url v) (Val []))"

text \<open>A block that may raise: the messages it has put, and its result or its exception.\<close>

datatype 'a res = Ok 'a | Exc pyexn

section \<open>download_process\<close>

text \<open>
  The retry loop \<open>for attempt in range(1, 4)\<close> of the sequential job, over the attempts
  still to make. Its result is \<open>success\<close>. The pauses (\<open>time.sleep(3)\<close>) put nothing and
  are left out.
\<close>

fun attempts_seq :: "float_ops \<Rightarrow> job_env \<Rightarrow> ydl_opts \<Rightarrow> string field \<Rightarrow> string \<Rightarrow> nat
    \<Rightarrow> nat list \<Rightarrow> msg list \<times> bool res" where
  "attempts_seq fp env opts video_url video_title i [] = ([], Ok False)"
| "attempts_seq fp env opts video_url video_title i (k # ks) =
     (if je_cancel_attempt env i k then ([], Exc (DownloadCancelled, download_cancelled_msg))
      else
        let retrying =
              (if k > 1
               then [status_msg (''Retrying download of '' @ quoted video_title
                                 @ '' ('' @ str_nat k @ ''/3)'')]
               else []);
            (hooked, raised) = ydl_download fp (je_download env opts video_url i k)
        in case raised of
             None \<Rightarrow>
               (retrying @ hooked @
                  (if k > 1
                   then [status_msg (''Successfully downloaded '' @ quoted video_title),
                         status_msg ''Processing downloads'']
                   else []),
                Ok True)
           | Some e \<Rightarrow>
               (let failed =
                      (if k = 3
                       then [status_msg (''Download failed '' @ quoted video_title),
                             status_msg ''Processing downloads'']
                       else []);
                    (later, r) = attempts_seq fp env opts video_url video_title i ks
                in (retrying @ hooked @ failed @ later, r)))"

text \<open>The body of \<open>for video in entries\<close> for the video at index \<open>i\<close>.\<close>

definition process_video :: "float_ops \<Rightarrow> job_env \<Rightarrow> string \<Rightarrow> string \<Rightarrow> nat \<Rightarrow> video
    \<Rightarrow> msg list \<times> unit res" where
  "process_video fp env format_choice playlist_folder i v =
     (if je_cancel_video env i then ([], Exc (DownloadCancelled, ''Download cancelled''))
      else
        let video_url = video_url_of v;
            video_title = fmt_field (dict_get (v_title v) (Val ''Unknown video''));
            downloading = [status_msg (''Downloading:  '' @ quoted video_title)]
        in case get_ffmpeg_path (je_ffmpeg_path env) (je_ffmpeg_found env i) of
             Inl e \<Rightarrow> (downloading, Exc e)
           | Inr ffmpeg \<Rightarrow>
               (case attempts_seq fp env (make_opts ffmpeg format_choice playlist_folder)
                       video_url video_title i [1, 2, 3] of
                  (ms, Exc e) \<Rightarrow> (downloading @ ms, Exc e)
                | (ms, Ok success) \<Rightarrow>
                    (downloading @ ms @ [processed_msg] @ (if success then [downloaded_msg] else []),
                     Ok ())))"

fun process_entries :: "float_ops \<Rightarrow> job_env \<Rightarrow> string \<Rightarrow> string \<Rightarrow> nat \<Rightarrow> video list
    \<Rightarrow> msg list \<times> unit res" where
  "process_entries fp env format_choice playlist_folder i [] = ([], Ok ())"
| "process_entries fp env format_choice playlist_folder i (v # vs) =
     (case process_video fp env format_choice playlist_folder i v of
        (ms, Exc e) \<Rightarrow> (ms, Exc e)
      | (ms, Ok u) \<Rightarrow>
          (let (later, r) = process_entries fp env format_choice playlist_folder (Suc i) vs
           in (ms @ later, r)))"

text \<open>
  The \<open>try\<close> block of \<open>download_process\<close>: the messages put, the file system left, and
  how the block ends.
\<close>

definition download_process_try :: "float_ops \<Rightarrow> job_env \<Rightarrow> playlist_info \<Rightarrow> string \<Rightarrow> string
    \<Rightarrow> msg list \<times> string list \<times> unit res" where
  "download_process_try fp env pl format_choice base_folder =
     (let starting = [status_msg ''Starting downloads''];
          total_files = length (entries pl)
      in if total_files = 0 then (starting @ [status_msg ''Empty content''], je_fs env, Ok ())
         else
           let playlist_folder = unique_folder (je_fs env) base_folder (title pl)
           in case makedirs (je_fs env) (je_makedirs_refusal env) playlist_folder of
                Inl e \<Rightarrow> (starting, je_fs env, Exc e)
              | Inr fs' \<Rightarrow>
                  (case process_entries fp env format_choice playlist_folder 0 (entries pl) of
                     (ms, Exc e) \<Rightarrow> (starting @ ms, fs', Exc e)
                   | (ms, Ok u) \<Rightarrow>
                       (starting @ ms @ [status_msg ''Completed!'', queue_complete_msg pl],
                        fs', Ok ())))"

text \<open>
  \<open>download_process\<close> with its \<open>except Exception\<close> and \<open>finally\<close> clauses: everything
  the job puts on the queue when it runs to its end, and the file system it leaves.
\<close>

definition download_process :: "float_ops \<Rightarrow> job_env \<Rightarrow> playlist_info \<Rightarrow> string \<Rightarrow> string
    \<Rightarrow> msg list \<times> string list" where
  "download_process fp env pl format_choice base_folder =
     (case download_process_try fp env pl format_choice base_folder of
        (ms, fs', Exc e) \<Rightarrow> (ms @ [status_msg (''Error: '' @ str_exn e)] @ [thread_end_msg], fs')
      | (ms, fs', Ok u) \<Rightarrow> (ms @ [thread_end_msg], fs'))"

section \<open>download_process_concurrent\<close>

text \<open>
  The retry loop of \<open>download_video\<close>. Here the whole body of an attempt is inside the
  \<open>try\<close>, the event is read only by the hook, and each failed attempt puts a
  \<open>Retrying\<close> status.
\<close>

fun attempts_conc :: "float_ops \<Rightarrow> job_env \<Rightarrow> ydl_opts \<Rightarrow> string field \<Rightarrow> string \<Rightarrow> nat
    \<Rightarrow> nat list \<Rightarrow> msg list \<times> bool" where
  "attempts_conc fp env opts video_url video_title i [] = ([], False)"
| "attempts_conc fp env opts video_url video_title i (k # ks) =
     (let (hooked, raised) = ydl_download fp (je_download env opts video_url i k)
      in case raised of
           None \<Rightarrow>
             (hooked @
                (if k > 1
                 then [status_msg (''Successfully downloaded '' @ quoted video_title),
                       status_msg ''Processing downloads'']
                 else []),
              True)
         | Some e \<Rightarrow>
             (let retrying = [status_msg (''Retrying download of '' @ quoted video_title
                                          @ '' ('' @ str_nat k @ ''/3)'')];
                  failed =
                    (if k = 3
                     then [status_msg (''Failed to download '' @ quoted video_title),
                           status_msg ''Processing downloads'']
                     else []);
                  (later, success) = attempts_conc fp env opts video_url video_title i ks
              in (hooked @ retrying @ failed @ later, success)))"

text \<open>
  \<open>download_video(video)\<close> for the video at index \<open>i\<close>: the messages the worker puts,
  in its own order, and the value it returns.
\<close>

definition download_video :: "float_ops \<Rightarrow> job_env \<Rightarrow> ydl_opts \<Rightarrow> nat \<Rightarrow> video
    \<Rightarrow> msg list \<times> bool" where
  "download_video fp env ydl_opts_template i v =
     (let video_title = fmt_field (dict_get (v_title v) (Val ''Unknown''));
          video_url = video_url_of v;
          (ms, success) = attempts_conc fp env ydl_opts_template video_url video_title i [1, 2, 3]
      in (ms @ [processed_msg] @ (if success then [downloaded_msg] else []), success))"

text \<open>
  The thread pool. Each submitted call is the list of messages it still has to put.
  A call leaves \<open>pending\<close>, in submission order, as soon as fewer than \<open>max_workers\<close>
  calls are running; \<open>sched n\<close> picks the running call that makes step \<open>n\<close>, which puts its
  next message or, when it has none left, ends. The result is the order in which the
  messages reach the queue. The lock of \<open>download_video\<close> guards two counters that nothing
  reads and orders no message against a message put outside it, so the pool admits every
  order the code can produce.
\<close>

function run_pool :: "nat \<Rightarrow> (nat \<Rightarrow> nat) \<Rightarrow> nat \<Rightarrow> msg list list \<Rightarrow> msg list list \<Rightarrow> msg list" where
  "run_pool max_workers sched n pending running =
     (if pending \<noteq> [] \<and> length running < max_workers
      then run_pool max_workers sched n (tl pending) (running @ [hd pending])
      else if running = [] then []
      else
        let w = sched n mod length running
        in case running ! w of
             [] \<Rightarrow> run_pool max_workers sched (Suc n) pending (take w running @ drop (Suc w) running)
           | m # rest \<Rightarrow> m # run_pool max_workers sched (Suc n) pending (running[w := rest]))"
  by pat_completeness auto
termination
proof (relation "measure (\<lambda>(max_workers, sched, n, pending, running).
          2 * (sum_list (map length pending) + sum_list (map length running)
               + length pending + length running) + length pending)")
  show "wf (measure (\<lambda>(max_workers, sched, n, pending, running).
          2 * (sum_list (map length pending) + sum_list (map length running)
               + length pending + length running) + length pending))"
    by simp
next
  fix max_workers :: nat and sched :: "nat \<Rightarrow> nat" and n :: nat
    and pending running :: "msg list list"
  assume "pending \<noteq> [] \<and> length running < max_workers"
  then obtain t ts where "pending = t # ts" by (cases pending) auto
  then show "((max_workers, sched, n, tl pending, running @ [hd pending]),
              max_workers, sched, n, pending, running)
      \<in> measure (\<lambda>(max_workers, sched, n, pending, running).
          2 * (sum_list (map length pending) + sum_list (map length running)
               + length pending + length running) + length pending)"
    by simp
next
  fix max_workers :: nat and sched :: "nat \<Rightarrow> nat" and n :: nat
    and pending running :: "msg list list" and w :: nat
  assume "running \<noteq> []" and w: "w = sched n mod length running" and ended: "running ! w = []"
  then have lt: "w < length running" by simp
  have whole: "sum_list (map length (take w running @ drop w running)) = sum_list (map length running)"
    by (simp only: append_take_drop_id)
  have "drop w running = running ! w # drop (Suc w) running"
    using lt by (simp add: Cons_nth_drop_Suc)
  with whole ended have "sum_list (map length running)
        = sum_list (map length (take w running @ drop (Suc w) running))"
    by simp
  moreover have "length (take w running @ drop (Suc w) running) < length running"
    using lt by simp
  ultimately show "((max_workers, sched, Suc n, pending, take w running @ drop (Suc w) running),
              max_workers, sched, n, pending, running)
      \<in> measure (\<lambda>(max_workers, sched, n, pending, running).
          2 * (sum_list (map length pending) + sum_list (map length running)
               + length pending + length running) + length pending)"
    by simp
next
  fix max_workers :: nat and sched :: "nat \<Rightarrow> nat" and n :: nat
    and pending running :: "msg list list" and w :: nat and m :: msg and rest :: "msg list"
  assume "running \<noteq> []" and w: "w = sched n mod length running" and step: "running ! w = m # rest"
  then have lt: "w < length running" by simp
  have whole: "sum_list (map length (take w running @ drop w running)) = sum_list (map length running)"
    by (simp only: append_take_drop_id)
  have "drop w running = running ! w # drop (Suc w) running"
    using lt by (simp add: Cons_nth_drop_Suc)
  moreover have "running[w := rest] = take w running @ rest # drop (Suc w) running"
    using lt by (simp add: upd_conv_take_nth_drop)
  ultimately have "sum_list (map length running) = Suc (sum_list (map length (running[w := rest])))"
    using whole step by simp
  then show "((max_workers, sched, Suc n, pending, running[w := rest]),
              max_workers, sched, n, pending, running)
      \<in> measure (\<lambda>(max_workers, sched, n, pending, running).
          2 * (sum_list (map length pending) + sum_list (map length running)
               + length pending + length running) + length pending)"
    by simp
qed

declare run_pool.simps [simp del]

text \<open>
  The \<open>try\<close> block of \<open>download_process_concurrent\<close>. \<open>ThreadPoolExecutor\<close> raises
  ValueError for \<open>max_workers <= 0\<close>. A worker raises nothing, so every
  \<open>future.result()\<close> returns.
\<close>

definition download_process_concurrent_try :: "float_ops \<Rightarrow> job_env \<Rightarrow> playlist_info \<Rightarrow> string
    \<Rightarrow> nat \<Rightarrow> string \<Rightarrow> msg list \<times> string list \<times> unit res" where
  "download_process_concurrent_try fp env pl format_choice max_simultaneous base_folder =
     (let starting = [status_msg ''Starting downloads''];
          total_files = length (entries pl)
      in if total_files = 0 then (starting @ [status_msg ''Empty content''], je_fs env, Ok ())
         else
           let playlist_folder = unique_folder (je_fs env) base_folder (title pl)
           in case makedirs (je_fs env) (je_makedirs_refusal env) playlist_folder of
                Inl e \<Rightarrow> (starting, je_fs env, Exc e)
              | Inr fs' \<Rightarrow>
                  (case get_ffmpeg_path (je_ffmpeg_path env) (je_ffmpeg_found env 0) of
                     Inl e \<Rightarrow> (starting, fs', Exc e)
                   | Inr ffmpeg \<Rightarrow>
                       (if max_simultaneous = 0
                        then (starting, fs', Exc (ValueError, ''max_workers must be greater than 0''))
                        else
                          let ydl_opts_template = make_opts ffmpeg format_choice playlist_folder;
                              futures = map (\<lambda>(i, v). fst (download_video fp env ydl_opts_template i v))
                                            (enumerate 0 (entries pl));
                              put = run_pool max_simultaneous (je_sched env) 0 futures []
                          in (starting @ put @ [status_msg ''Complete!'', queue_complete_msg pl],
                              fs', Ok ()))))"

definition download_process_concurrent :: "float_ops \<Rightarrow> job_env \<Rightarrow> playlist_info \<Rightarrow> string
    \<Rightarrow> nat \<Rightarrow> string \<Rightarrow> msg list \<times> string list" where
  "download_process_concurrent fp env pl format_choice max_simultaneous base_folder =
     (case download_process_concurrent_try fp env pl format_choice max_simultaneous base_folder of
        (ms, fs', Exc e) \<Rightarrow> (ms @ [status_msg (''Error: '' @ str_exn e)] @ [thread_end_msg], fs')
      | (ms, fs', Ok u) \<Rightarrow> (ms @ [thread_end_msg], fs'))"

text \<open>
  \<open>Process.terminate()\<close> stops the job where it stands; no \<open>except\<close> or \<open>finally\<close> clause
  of it runs. Of a job stopped after it has put \<open>n\<close> messages the queue holds the first
  \<open>n\<close> messages of its run.
\<close>

definition terminated_after :: "nat \<Rightarrow> msg list \<Rightarrow> msg list" where
  "terminated_after n put = take n put"

section \<open>The window\<close>

text \<open>
  The elements of the window by their keys: the text an element shows, its text colour,
  what a progress bar was last set to, and whether an element is disabled or visible.
\<close>

record window =
  w_text :: "string \<Rightarrow> string"
  w_color :: "string \<Rightarrow> string"
  w_bar :: "string \<Rightarrow> msg_val"
  w_disabled :: "string \<Rightarrow> bool"
  w_visible :: "string \<Rightarrow> bool"

definition set_text :: "string \<Rightarrow> string \<Rightarrow> window \<Rightarrow> window" where
  "set_text key t w = w\<lparr> w_text := (w_text w)(key := t) \<rparr>"

definition set_color :: "string \<Rightarrow> string \<Rightarrow> window \<Rightarrow> window" where
  "set_color key c w = w\<lparr> w_color := (w_color w)(key := c) \<rparr>"

definition set_status :: "string \<Rightarrow> string \<Rightarrow> window \<Rightarrow> window" where
  \<comment> \<open>\<open>window["-STATUS-TXT-"].update(t, text_color=c)\<close>\<close>
  "set_status t c w = set_color ''-STATUS-TXT-'' c (set_text ''-STATUS-TXT-'' t w)"

definition update_bar :: "string \<Rightarrow> msg_val \<Rightarrow> window \<Rightarrow> window" where
  "update_bar key v w = w\<lparr> w_bar := (w_bar w)(key := v) \<rparr>"

definition set_disabled :: "string \<Rightarrow> bool \<Rightarrow> window \<Rightarrow> window" where
  "set_disabled key b w = w\<lparr> w_disabled := (w_disabled w)(key := b) \<rparr>"

definition set_visible :: "string \<Rightarrow> bool \<Rightarrow> window \<Rightarrow> window" where
  "set_visible key b w = w\<lparr> w_visible := (w_visible w)(key := b) \<rparr>"

definition fmt_val :: "msg_val \<Rightarrow> string" where
  \<comment> \<open>a message value inside an f-string; the text of a dictionary is not modelled\<close>
  "fmt_val v = (case v of VNone \<Rightarrow> ''None'' | VStr t \<Rightarrow> t | VInt i \<Rightarrow> str_int i
                | VInfo i \<Rightarrow> ''{...}'')"

section \<open>The state of main\<close>

text \<open>The process \<open>main\<close> started last: its target and arguments.\<close>

record launched =
  l_concurrent :: bool
  l_info :: playlist_info
  l_format :: string
  l_max_workers :: "nat option"
  l_base_folder :: string

text \<open>
  The variables of \<open>main\<close>. A queue entry is a dictionary shared between the queue, the
  thread that resolves it and \<open>current_download\<close>, so the queue holds references into
  \<open>heap\<close>. \<open>msg_value\<close> is the loop variable the drain leaves behind (\<open>None\<close>: not yet
  bound). \<open>posted\<close> are the events written with \<open>write_event_value\<close>, \<open>threads\<close> the
  resolutions started (entry and URL), \<open>terminated\<close> whether \<open>download_proc\<close> was
  terminated.
\<close>

record gui_state =
  download_queue :: "nat list"
  heap :: "nat \<Rightarrow> playlist_info"
  next_ref :: nat
  initial_total :: nat
  downloaded_files :: nat
  processed_files :: nat
  session_active :: bool
  current_download :: "nat option"
  concurrent_mode :: bool
  current_total :: nat
  processed_current :: nat
  cancel_event :: bool
  download_proc :: "launched option"
  terminated :: bool
  msg_value :: "msg_val option"
  posted :: "msg list"
  threads :: "(nat \<times> string) list"
  base_folder :: string
  create_subfolder :: bool
  config_file :: string
  win :: window

definition display_title :: "string \<Rightarrow> string" where
  "display_title t = (if length t > 38 then take 35 t @ ''...'' else t)"

definition queue_view :: "gui_state \<Rightarrow> string list" where
  \<comment> \<open>\<open>titles\<close> of \<open>update_queue_display\<close>\<close>
  "queue_view s = map (\<lambda>item. display_title (title (heap s item))) (rev (download_queue s))"

definition update_queue_display :: "gui_state \<Rightarrow> gui_state" where
  "update_queue_display s =
     (let titles = queue_view s;
          display_text = (if titles \<noteq> [] then str_join '' | '' titles else ''Queue is empty'')
      in s\<lparr> win := set_text ''-QUEUE-TEXT-'' display_text (win s) \<rparr>)"

definition queue_total :: "gui_state \<Rightarrow> nat" where
  \<comment> \<open>\<open>sum(item.get('total', 0) for item in download_queue)\<close>\<close>
  "queue_total s = sum_list (map (\<lambda>item. total (heap s item)) (download_queue s))"

definition count_text :: "nat \<Rightarrow> nat \<Rightarrow> string" where
  "count_text a b = replicate 22 CHR '' '' @ ''Downloaded Files: '' @ str_nat a @ '' / '' @ str_nat b"

definition update_counters :: "float_ops \<Rightarrow> gui_state \<Rightarrow> gui_state" where
  "update_counters fp s =
     (let s = (if \<not> session_active s then s\<lparr> initial_total := queue_total s \<rparr> else s);
          w = set_text ''-SONG-COUNT-TXT-'' (count_text (downloaded_files s) (initial_total s)) (win s);
          w = (if initial_total s > 0
               then let progress = percent_of fp (of_nat (processed_files s)) (of_nat (initial_total s))
                    in set_text ''-OVERALL-PROGRESS-TXT-'' (str_int progress @ ''%'')
                         (update_bar ''-OVERALL-PROGRESS-BAR-'' (VInt progress) w)
               else w);
          w = (if session_active s \<and> concurrent_mode s
               then let percent = (if current_total s > 0
                                   then percent_of fp (of_nat (processed_current s)) (of_nat (current_total s))
                                   else 0)
                    in set_text ''-FILE-PROGRESS-TXT-'' (str_int percent @ ''%'')
                         (update_bar ''-FILE-PROGRESS-BAR-'' (VInt percent) w)
               else w)
      in s\<lparr> win := w \<rparr>)"

definition add_to_queue :: "string \<Rightarrow> gui_state \<Rightarrow> gui_state" where
  "add_to_queue u s =
     (if \<not> (startswith u ''http://'' \<or> startswith u ''https://'')
      then s\<lparr> win := set_status ''Invalid URL'' ''red'' (win s) \<rparr>
      else
        let temp_item = \<lparr> title = ''Loading...'', url = u, total = 0, entries = [] \<rparr>;
            item = next_ref s;
            s = s\<lparr> heap := (heap s)(item := temp_item), next_ref := Suc item,
                   download_queue := download_queue s @ [item] \<rparr>;
            s = update_queue_display s;
            s = s\<lparr> win := set_status ''Fetching info...'' ''#5DE2E7'' (win s) \<rparr>
        in s\<lparr> threads := threads s @ [(item, u)] \<rparr>)"

fun remove_first :: "('a \<Rightarrow> bool) \<Rightarrow> 'a list \<Rightarrow> 'a list option" where
  \<comment> \<open>\<open>xs.remove(x)\<close>: drops the first element equal to \<open>x\<close>, \<open>None\<close> for ValueError\<close>
  "remove_first p [] = None"
| "remove_first p (x # xs) =
     (if p x then Some xs else map_option (\<lambda>ys. x # ys) (remove_first p xs))"

text \<open>
  \<open>fetch_title\<close>, the thread \<open>add_to_queue\<close> starts for the entry \<open>item\<close> and the URL
  \<open>u\<close>, run in one piece. \<open>temp_item.update(info)\<close> overwrites the four keys. Dictionaries
  compare by content. When \<open>remove\<close> raises, the thread ends there.
\<close>

definition fetch_title :: "float_ops \<Rightarrow> (nat \<Rightarrow> extract_outcome) \<Rightarrow> nat \<Rightarrow> string \<Rightarrow> gui_state
    \<Rightarrow> gui_state" where
  "fetch_title fp outcome item u s =
     (let i = snd (get_playlist_info u outcome);
          s = s\<lparr> heap := (heap s)(item := i) \<rparr>
      in if total i = 0
         then (case remove_first (\<lambda>x. heap s x = heap s item) (download_queue s) of
                 None \<Rightarrow> s
               | Some q \<Rightarrow>
                   update_queue_display
                     (s\<lparr> download_queue := q, win := set_status ''Invalid URL'' ''red'' (win s) \<rparr>))
         else
           let s = update_counters fp (update_queue_display s)
           in s\<lparr> win := set_status ''Waiting to start'' ''white'' (win s) \<rparr>)"

definition update_buttons :: "bool \<Rightarrow> window \<Rightarrow> window" where
  "update_buttons state w =
     (let w = fold (\<lambda>key w. set_disabled key state w)
                [''-DOWNLOAD-'', ''-CLEAR-QUEUE-'', ''-REMOVE-LAST-'', ''-URL-'', ''-CONCURRENT-'',
                 ''-MP4-'', ''-MP3-'', ''-CONCURRENT-COUNT-''] w;
          text_color = (if state then ''#878585'' else ''white'')
      in set_color ''-MAX-TEXT-'' text_color w)"

text \<open>
  The inner loop of the main loop: each message from the job changes a counter or is
  written back as an event, and the counters are shown after each.
\<close>

fun drain :: "float_ops \<Rightarrow> msg list \<Rightarrow> gui_state \<Rightarrow> gui_state" where
  "drain fp [] s = s"
| "drain fp ((msg_type, v) # ms) s =
     (let s = s\<lparr> msg_value := Some v \<rparr>;
          s = (if msg_type = ''-DOWNLOADED-PROGRESS-''
               then s\<lparr> downloaded_files := downloaded_files s + 1 \<rparr>
               else if msg_type = ''-PROCESSED-PROGRESS-''
               then (let s = s\<lparr> processed_files := processed_files s + 1 \<rparr>
                     in if concurrent_mode s
                        then s\<lparr> processed_current := processed_current s + 1 \<rparr> else s)
               else s\<lparr> posted := posted s @ [(msg_type, v)] \<rparr>)
      in drain fp ms (update_counters fp s))"

section \<open>The main loop\<close>

text \<open>
  What \<open>window.read\<close> returns besides the event: the values of the input elements and,
  for an event written with \<open>write_event_value\<close>, its value. \<open>rd_view\<close> are the presses
  of the bin button in the queue window until it is closed, each with the selected line if
  any; \<open>rd_folder\<close> is what the folder dialog returns, and whether \<open>os.makedirs\<close> and
  the writing of the configuration file raise afterwards.
\<close>

record read_values =
  val_url :: string
  val_mp4 :: bool
  val_concurrent :: bool
  val_count :: string
  val_status :: string

record folder_dialog =
  fd_ok :: bool
  fd_folder :: string
  fd_create_sub :: bool
  fd_makedirs_raises :: bool
  fd_write_raises :: bool

record reading =
  rd_event :: "string option"
  rd_values :: read_values
  rd_view :: "string option list"
  rd_folder :: folder_dialog

definition is_decimal :: "char \<Rightarrow> bool" where
  "is_decimal c = (48 \<le> (of_char c :: nat) \<and> (of_char c :: nat) \<le> 57)"

definition isdigit :: "string \<Rightarrow> bool" where
  \<comment> \<open>\<open>s.isdigit()\<close>: below 256 the superscripts 1, 2 and 3 count as digits too\<close>
  "isdigit s = (s \<noteq> [] \<and> list_all (\<lambda>c. is_decimal c \<or> c \<in> set [CHR 0xB2, CHR 0xB3, CHR 0xB9]) s)"

definition int_of_str :: "string \<Rightarrow> pyexn + nat" where
  \<comment> \<open>\<open>int(s)\<close> for a string of digits; it refuses the superscripts\<close>
  "int_of_str s =
     (if list_all is_decimal s then Inr (foldl (\<lambda>n c. 10 * n + (of_char c - 48)) 0 s)
      else Inl (ValueError, ''invalid literal for int() with base 10''))"

definition basename :: "string \<Rightarrow> string" where
  "basename p = rev (takeWhile (\<lambda>c. c \<noteq> CHR ''/'') (rev p))"

definition numbered_titles :: "gui_state \<Rightarrow> string list" where
  \<comment> \<open>\<open>queue_titles\<close> of the queue window\<close>
  "numbered_titles s =
     map (\<lambda>(i, item). str_nat (i + 1) @ ''. '' @ title (heap s item))
         (enumerate 0 (rev (download_queue s)))"

fun index_of :: "'a \<Rightarrow> 'a list \<Rightarrow> nat option" where
  \<comment> \<open>\<open>xs.index(x)\<close>, \<open>None\<close> for ValueError\<close>
  "index_of x [] = None"
| "index_of x (y # ys) = (if x = y then Some 0 else map_option Suc (index_of x ys))"

fun view_loop :: "float_ops \<Rightarrow> string list \<Rightarrow> string option list \<Rightarrow> gui_state \<Rightarrow> pyexn + gui_state" where
  "view_loop fp queue_titles [] s = Inr s"
| "view_loop fp queue_titles (None # presses) s = view_loop fp queue_titles presses s"
| "view_loop fp queue_titles (Some selected_title # presses) s =
     (case index_of selected_title queue_titles of
        None \<Rightarrow> Inl (ValueError, selected_title @ '' is not in list'')
      | Some selected_index \<Rightarrow>
          (if selected_index < length (download_queue s)
           then
             let k = length (download_queue s) - 1 - selected_index;
                 s = s\<lparr> download_queue := take k (download_queue s) @ drop (Suc k) (download_queue s) \<rparr>;
                 queue_titles = numbered_titles s
             in view_loop fp queue_titles presses (update_counters fp (update_queue_display s))
           else view_loop fp queue_titles presses s))"

definition choose_dir :: "folder_dialog \<Rightarrow> gui_state \<Rightarrow> gui_state" where
  "choose_dir fd s =
     (if fd_ok fd \<and> fd_folder fd \<noteq> []
      then
        let s = s\<lparr> create_subfolder := fd_create_sub fd \<rparr>;
            selected_folder = fd_folder fd;
            new_base = (if create_subfolder s
                        then (if basename selected_folder = ''Petice Downloads'' then selected_folder
                              else path_join selected_folder ''Petice Downloads'')
                        else selected_folder)
        in if fd_makedirs_raises fd then s
           else
             let s = s\<lparr> base_folder := new_base \<rparr>
             in if fd_write_raises fd then s
                else s\<lparr> config_file := new_base @ [CHR 0x0A]
                                       @ (if create_subfolder s then ''true'' else ''false'') \<rparr>
      else s)"

definition start_download :: "read_values \<Rightarrow> gui_state \<Rightarrow> pyexn + gui_state" where
  \<comment> \<open>the branch for \<open>-DOWNLOAD-\<close>\<close>
  "start_download vals s =
     (if download_queue s \<noteq> [] \<and> current_download s = None \<and> initial_total s > 0
      then
        let item = last (download_queue s);
            s = s\<lparr> session_active := True, current_download := Some item,
                   current_total := total (heap s item), processed_current := 0 \<rparr>;
            w = update_buttons True (win s);
            w = set_status ''Starting...'' ''yellow'' w;
            w = set_text ''-FILE-PROGRESS-TXT-'' ''0%'' (update_bar ''-FILE-PROGRESS-BAR-'' (VInt 0) w);
            w = set_visible ''-CANCEL-'' True (set_visible ''-EXIT-'' False w);
            s = s\<lparr> win := w, cancel_event := False \<rparr>;
            format_choice = (if val_mp4 vals then ''mp4'' else ''mp3'')
        in if concurrent_mode s
           then (case (if isdigit (val_count vals) then int_of_str (val_count vals) else Inr 10) of
                   Inl e \<Rightarrow> Inl e
                 | Inr max_workers \<Rightarrow>
                     Inr (s\<lparr> download_proc := Some \<lparr> l_concurrent = True, l_info = heap s item,
                                l_format = format_choice, l_max_workers = Some max_workers,
                                l_base_folder = base_folder s \<rparr>,
                              terminated := False \<rparr>))
           else Inr (s\<lparr> download_proc := Some \<lparr> l_concurrent = False, l_info = heap s item,
                            l_format = format_choice, l_max_workers = None,
                            l_base_folder = base_folder s \<rparr>,
                          terminated := False \<rparr>)
      else Inr s)"

definition cancel_download :: "float_ops \<Rightarrow> gui_state \<Rightarrow> gui_state" where
  \<comment> \<open>the branch for \<open>-CANCEL-\<close>\<close>
  "cancel_download fp s =
     (let s = s\<lparr> cancel_event := True \<rparr>;
          s = (if download_proc s \<noteq> None then s\<lparr> terminated := True \<rparr> else s);
          w = set_visible ''-EXIT-'' True (set_visible ''-CANCEL-'' False (win s));
          w = update_buttons False (set_status ''Cancelled'' ''red'' w);
          s = s\<lparr> win := w, current_download := None, session_active := False,
                 downloaded_files := 0, processed_files := 0 \<rparr>
      in update_counters fp s)"

definition add_queue_event :: "read_values \<Rightarrow> gui_state \<Rightarrow> gui_state" where
  \<comment> \<open>the branch for \<open>-ADD-QUEUE-\<close>\<close>
  "add_queue_event vals s =
     (let u = str_strip (val_url vals)
      in if u \<noteq> []
         then
           let s = add_to_queue u s;
               s = s\<lparr> win := set_text ''-URL-'' [] (win s) \<rparr>;
               s = s\<lparr> downloaded_files := 0, processed_files := 0 \<rparr>;
               s = s\<lparr> initial_total := queue_total s \<rparr>;
               w = set_text ''-FILE-PROGRESS-TXT-'' ''0%'' (update_bar ''-FILE-PROGRESS-BAR-'' (VInt 0) (win s));
               w = set_text ''-OVERALL-PROGRESS-TXT-'' ''0%'' (update_bar ''-OVERALL-PROGRESS-BAR-'' (VInt 0) w);
               w = set_text ''-SONG-COUNT-TXT-'' (count_text 0 (initial_total s)) w
           in s\<lparr> win := w \<rparr>
         else s)"

definition clear_queue :: "float_ops \<Rightarrow> gui_state \<Rightarrow> gui_state" where
  \<comment> \<open>the branch for \<open>-CLEAR-QUEUE-\<close>\<close>
  "clear_queue fp s =
     update_counters fp (update_queue_display
       (s\<lparr> download_queue := [], downloaded_files := 0, processed_files := 0 \<rparr>))"

definition remove_last :: "float_ops \<Rightarrow> gui_state \<Rightarrow> gui_state" where
  \<comment> \<open>the branch for \<open>-REMOVE-LAST-\<close>\<close>
  "remove_last fp s =
     (if download_queue s \<noteq> []
      then update_counters fp (update_queue_display (s\<lparr> download_queue := butlast (download_queue s) \<rparr>))
      else s)"

definition status_event :: "read_values \<Rightarrow> gui_state \<Rightarrow> gui_state" where
  \<comment> \<open>the branch for \<open>-STATUS-\<close>\<close>
  "status_event vals s =
     (let status_text = val_status vals;
          color = (if str_contains status_text ''Complete'' then ''#7BFF47''
                   else if str_contains status_text ''Error'' \<or> str_contains status_text ''Cancelled''
                   then ''red'' else ''white'')
      in s\<lparr> win := set_status status_text color (win s) \<rparr>)"

definition file_progress_event :: "float_ops \<Rightarrow> gui_state \<Rightarrow> pyexn + gui_state" where
  \<comment> \<open>the branch for \<open>-FILE-PROGRESS-\<close>, which reads the variable \<open>msg_value\<close>\<close>
  "file_progress_event fp s =
     (let shown = (\<lambda>v. s\<lparr> win := set_text ''-FILE-PROGRESS-TXT-'' (fmt_val v @ ''%'')
                                    (update_bar ''-FILE-PROGRESS-BAR-'' v (win s)) \<rparr>)
      in if concurrent_mode s \<and> current_total s \<noteq> 1
         then Inr (shown (VInt (if current_total s > 0
                                then percent_of fp (of_nat (processed_current s)) (of_nat (current_total s))
                                else 0)))
         else (case msg_value s of
                 None \<Rightarrow> Inl (NameError, ''msg_value is not bound'')
               | Some v \<Rightarrow> Inr (shown v)))"

definition queue_complete_event :: "gui_state \<Rightarrow> gui_state" where
  \<comment> \<open>the branch for \<open>-QUEUE-COMPLETE-\<close>; the two dictionaries compare by content\<close>
  "queue_complete_event s =
     (if download_queue s \<noteq> []
         \<and> (case current_download s of
               None \<Rightarrow> False
             | Some item \<Rightarrow> heap s item = heap s (last (download_queue s)))
      then update_queue_display
             (s\<lparr> download_queue := butlast (download_queue s), current_download := None \<rparr>)
      else s)"

definition thread_end_event :: "gui_state \<Rightarrow> gui_state" where
  \<comment> \<open>the branch for \<open>-THREAD-END-\<close>\<close>
  "thread_end_event s =
     (let w = set_visible ''-EXIT-'' True (set_visible ''-CANCEL-'' False (win s));
          s = s\<lparr> win := update_buttons False w, current_download := None, session_active := False \<rparr>
      in if download_queue s \<noteq> [] then s\<lparr> posted := posted s @ [(''-DOWNLOAD-'', VNone)] \<rparr> else s)"

text \<open>
  The \<open>if\<close>/\<open>elif\<close> chain of the main loop for one reading. The result is the new state
  and whether the loop ends (\<open>break\<close>), or the exception that ends \<open>main\<close>.
\<close>

definition handle_event :: "float_ops \<Rightarrow> reading \<Rightarrow> gui_state \<Rightarrow> pyexn + gui_state \<times> bool" where
  "handle_event fp rd s =
     (let go = (\<lambda>s'. Inr (s', False));
          try' = (\<lambda>r. case r of Inl e \<Rightarrow> Inl e | Inr s' \<Rightarrow> Inr (s', False))
      in case rd_event rd of
           None \<Rightarrow> Inr (s, True)
         | Some event \<Rightarrow>
            (if event = ''-EXIT-'' then Inr (s, True)
             else if event = ''-ADD-QUEUE-'' then go (add_queue_event (rd_values rd) s)
             else if event = ''-CLEAR-QUEUE-'' then go (clear_queue fp s)
             else if event = ''-VIEW-QUEUE-'' then try' (view_loop fp (numbered_titles s) (rd_view rd) s)
             else if event = ''-REMOVE-LAST-'' then go (remove_last fp s)
             else if event = ''-CONCURRENT-'' then go (s\<lparr> concurrent_mode := val_concurrent (rd_values rd) \<rparr>)
             else if event = ''-CHOOSE-DIR-'' then go (choose_dir (rd_folder rd) s)
             else if event = ''-DOWNLOAD-'' then try' (start_download (rd_values rd) s)
             else if event = ''-CANCEL-'' then go (cancel_download fp s)
             else if event = ''-STATUS-'' then go (status_event (rd_values rd) s)
             else if event = ''-FILE-PROGRESS-'' then try' (file_progress_event fp s)
             else if event = ''-QUEUE-COMPLETE-'' then go (queue_complete_event s)
             else if event = ''-THREAD-END-'' then go (thread_end_event s)
             else go s))"

text \<open>One turn of \<open>while True\<close>: the messages waiting on the queue are drained first.\<close>

definition main_loop_turn :: "float_ops \<Rightarrow> reading \<Rightarrow> msg list \<Rightarrow> gui_state
    \<Rightarrow> pyexn + gui_state \<times> bool" where
  "main_loop_turn fp rd waiting s = handle_event fp rd (drain fp waiting s)"

text \<open>
  The window as the layout builds it, and the variables as \<open>main\<close> initialises them
  once it has read the base folder and the subfolder flag from the configuration file.
\<close>

definition initial_window :: window where
  "initial_window =
     \<lparr> w_text = (\<lambda>key. [])
         (''-STATUS-TXT-'' := ''Waiting for start'', ''-QUEUE-TEXT-'' := ''Queue is empty'',
          ''-FILE-PROGRESS-TXT-'' := ''0%'', ''-OVERALL-PROGRESS-TXT-'' := ''0%'',
          ''-SONG-COUNT-TXT-'' := count_text 0 0, ''-CONCURRENT-COUNT-'' := ''10''),
       w_color = (\<lambda>key. ''white''),
       w_bar = (\<lambda>key. VInt 0),
       w_disabled = (\<lambda>key. False),
       w_visible = (\<lambda>key. True)(''-CANCEL-'' := False) \<rparr>"

definition initial_state :: "string \<Rightarrow> bool \<Rightarrow> string \<Rightarrow> gui_state" where
  "initial_state folder subfolder config =
     \<lparr> download_queue = [],
       heap = (\<lambda>item. \<lparr> title = [], url = [], total = 0, entries = [] \<rparr>),
       next_ref = 0,
       initial_total = 0,
       downloaded_files = 0,
       processed_files = 0,
       session_active = False,
       current_download = None,
       concurrent_mode = False,
       current_total = 0,
       processed_current = 0,
       cancel_event = False,
       download_proc = None,
       terminated = False,
       msg_value = None,
       posted = [],
       threads = [],
       base_folder = folder,
       create_subfolder = subfolder,
       config_file = config,
       win = initial_window \<rparr>"

section \<open>Notions used in the statements\<close>

text \<open>Every entry of the queue is a dictionary that \<open>add_to_queue\<close> has created.\<close>

definition refs_allocated :: "gui_state \<Rightarrow> bool" where
  "refs_allocated s = list_all (\<lambda>item. item < next_ref s) (download_queue s)"

text \<open>The two aggregate counters of \<open>main\<close>: \<open>processed_files\<close> and \<open>downloaded_files\<close>.\<close>

definition counters :: "gui_state \<Rightarrow> nat \<times> nat" where
  "counters s = (processed_files s, downloaded_files s)"

text \<open>An attempt fails when the body of the \<open>try\<close> raises.\<close>

definition attempt_fails :: "string \<Rightarrow> (nat \<Rightarrow> extract_outcome) \<Rightarrow> nat \<Rightarrow> bool" where
  "attempt_fails u outcome k = isl (try_extract u (outcome k))"

text \<open>The number of attempts that fail before the first that succeeds, 3 when none does.\<close>

definition failed_attempts :: "string \<Rightarrow> (nat \<Rightarrow> extract_outcome) \<Rightarrow> nat" where
  "failed_attempts u outcome =
     (if \<not> attempt_fails u outcome 0 then 0
      else if \<not> attempt_fails u outcome 1 then 1
      else if \<not> attempt_fails u outcome 2 then 2 else 3)"

text \<open>A key that holds a value.\<close>

definition known :: "'a field \<Rightarrow> bool" where
  "known f = (case f of Val x \<Rightarrow> True | _ \<Rightarrow> False)"

text \<open>
  The messages a job puts while it works on one video, apart from the two counters: status
  texts and file progress.
\<close>

definition chatter :: "msg \<Rightarrow> bool" where
  "chatter m = (fst m = ''-STATUS-'' \<or> fst m = ''-FILE-PROGRESS-'')"

text \<open>The messages a job puts for its items: chatter and the two counters.\<close>

definition item_msg :: "msg \<Rightarrow> bool" where
  "item_msg m = (chatter m \<or> m = processed_msg \<or> m = downloaded_msg)"

text \<open>The download of video \<open>v\<close> at index \<open>i\<close> raises in attempt \<open>k\<close>.\<close>

definition attempt_raises :: "float_ops \<Rightarrow> job_env \<Rightarrow> ydl_opts \<Rightarrow> video \<Rightarrow> nat \<Rightarrow> nat \<Rightarrow> bool" where
  "attempt_raises fp env opts v i k
     = (snd (ydl_download fp (je_download env opts (video_url_of v) i k)) \<noteq> None)"

section \<open>Examples\<close>

text \<open>
  A playlist of two videos, a single video, a reading of the window, and a state of
  \<open>main\<close> with both in the queue after an earlier job has counted two files.
\<close>

definition a_video :: "string \<Rightarrow> string \<Rightarrow> video" where
  "a_video i t = \<lparr> v_id = Val i, v_url = Absent, v_title = Val t \<rparr>"

definition song_list :: playlist_info where
  "song_list = \<lparr> title = ''Songs'', url = ''https://www.youtube.com/playlist?list=PL1'', total = 2,
                  entries = [a_video ''a1'' ''First'', a_video ''b2'' ''Second''] \<rparr>"

definition one_clip :: playlist_info where
  "one_clip = \<lparr> title = ''Clip'', url = ''https://youtu.be/c3'', total = 1,
                 entries = [a_video ''c3'' ''Clip''] \<rparr>"

definition some_values :: "string \<Rightarrow> read_values" where
  "some_values u = \<lparr> val_url = u, val_mp4 = True, val_concurrent = False, val_count = ''10'',
                      val_status = [] \<rparr>"

definition press :: "string \<Rightarrow> string \<Rightarrow> reading" where
  "press event u = \<lparr> rd_event = Some event, rd_values = some_values u, rd_view = [],
                      rd_folder = \<lparr> fd_ok = False, fd_folder = [], fd_create_sub = False,
                                    fd_makedirs_raises = False, fd_write_raises = False \<rparr> \<rparr>"

definition two_queued :: gui_state where
  "two_queued = (initial_state ''/home/u/Petice Downloads'' True [])
     \<lparr> download_queue := [0, 1],
       heap := (\<lambda>item. if item = 0 then song_list else one_clip),
       next_ref := 2, initial_total := 3, processed_files := 2, downloaded_files := 1 \<rparr>"

text \<open>A URL that never resolves, and one that resolves at the second attempt.\<close>

definition unavailable :: "nat \<Rightarrow> extract_outcome" where
  "unavailable k = Raises (DownloadError, ''Video unavailable'')"

definition second_time :: "nat \<Rightarrow> extract_outcome" where
  "second_time k =
     (if k = 1
      then Returns (Some \<lparr> v_id = Val ''c3'', v_url = Absent, v_title = Val ''Clip: one'',
                           i_entries = Absent \<rparr>)
      else Raises (DownloadError, ''Network is unreachable''))"

text \<open>A progress dictionary that carries both a percentage and the byte counts.\<close>

definition both_known :: progress_dict where
  "both_known = \<lparr> d_status = Val ''downloading'', d_percent = Val 50, d_downloaded_bytes = Val 10,
                   d_total_bytes = Val 100, d_total_bytes_estimate = Absent \<rparr>"

text \<open>
  A run in which nothing is cancelled and ffmpeg is there: the folders \<open>/d/Songs\<close> and
  \<open>/d/Songs_1\<close> exist already, the video at index 1 fails in every attempt, and every
  other download reports half of its bytes, then its end, and succeeds.
\<close>

definition a_call :: "string \<Rightarrow> rat \<Rightarrow> rat \<Rightarrow> rat \<Rightarrow> hook_call" where
  "a_call status now bytes whole =
     \<lparr> hc_cancel = False, hc_now = now,
       hc_d = \<lparr> d_status = Val status, d_percent = Absent, d_downloaded_bytes = Val bytes,
                d_total_bytes = Val whole, d_total_bytes_estimate = Absent \<rparr> \<rparr>"

definition quiet_env :: job_env where
  "quiet_env =
     \<lparr> je_fs = [''/d/Songs'', ''/d/Songs_1''],
       je_makedirs_refusal = None,
       je_ffmpeg_path = ''/app/bin/ffmpeg.exe'',
       je_ffmpeg_found = (\<lambda>k. True),
       je_cancel_video = (\<lambda>i. False),
       je_cancel_attempt = (\<lambda>i k. False),
       je_download = (\<lambda>opts u i k.
          if i = 1 then \<lparr> a_calls = [], a_raises = Some (DownloadError, ''HTTP Error 403'') \<rparr>
          else \<lparr> a_calls = [a_call ''downloading'' 5 400 800, a_call ''finished'' 6 800 800],
                 a_raises = None \<rparr>),
       je_sched = (\<lambda>n. n) \<rparr>"

text \<open>A progress dictionary without a percentage.\<close>

definition bytes_only :: "rat field \<Rightarrow> rat field \<Rightarrow> progress_dict" where
  "bytes_only whole estimate =
     \<lparr> d_status = Val ''downloading'', d_percent = Absent, d_downloaded_bytes = Val 400,
       d_total_bytes = whole, d_total_bytes_estimate = estimate \<rparr>"

section \<open>Properties of sanitize_filename\<close>

lemma fold_replace_keeps_out:
  "c \<notin> set name \<Longrightarrow> c \<noteq> r \<Longrightarrow> c \<notin> set (fold (\<lambda>char name. str_replace char r name) cs name)"
proof (induction cs arbitrary: name)
  case Nil
  then show ?case by simp
next
  case (Cons a cs)
  from Cons.prems have "c \<notin> set (str_replace a r name)" by (auto simp: str_replace_def)
  with Cons.IH Cons.prems(2) show ?case by simp
qed

lemma fold_replace_removes:
  "c \<in> set cs \<Longrightarrow> c \<noteq> r \<Longrightarrow> c \<notin> set (fold (\<lambda>char name. str_replace char r name) cs name)"
proof (induction cs arbitrary: name)
  case Nil
  then show ?case by simp
next
  case (Cons a cs)
  show ?case
  proof (cases "c = a")
    case True
    with Cons.prems have "c \<notin> set (str_replace a r name)" by (auto simp: str_replace_def)
    with Cons.prems show ?thesis by (simp add: fold_replace_keeps_out)
  next
    case False
    with Cons show ?thesis by simp
  qed
qed

lemma underscore_valid: "CHR ''_'' \<notin> set invalid_chars"
  by (simp add: invalid_chars_def)

lemma replace_all_no_invalid:
  "c \<in> set invalid_chars \<Longrightarrow> c \<notin> set (fold (\<lambda>char name. str_replace char CHR ''_'' name) invalid_chars name)"
  using fold_replace_removes underscore_valid by metis

lemma set_rstrip_with: "set (rstrip_with p s) \<subseteq> set s"
  unfolding rstrip_with_def using set_dropWhileD by fastforce

lemma set_lstrip_with: "set (lstrip_with p s) \<subseteq> set s"
  unfolding lstrip_with_def using set_dropWhileD by fastforce

lemma sanitize_no_invalid: "c \<in> set invalid_chars \<Longrightarrow> c \<notin> set (sanitize_filename name)"
  unfolding sanitize_filename_def Let_def str_rstrip_def str_strip_def
  using replace_all_no_invalid set_rstrip_with set_lstrip_with by (meson subsetD)

lemma rstrip_with_last: "rstrip_with p s \<noteq> [] \<Longrightarrow> \<not> p (last (rstrip_with p s))"
  unfolding rstrip_with_def
  by (metis (no_types, lifting) hd_dropWhile last_rev rev_is_Nil_conv)

lemma sanitize_no_trailing_dot:
  "sanitize_filename name \<noteq> [] \<Longrightarrow> last (sanitize_filename name) \<noteq> CHR ''.''"
  unfolding sanitize_filename_def Let_def str_rstrip_def
  using rstrip_with_last [of "\<lambda>c. c \<in> set ''.''"] by fastforce

lemma rstrip_with_hd: "rstrip_with p s \<noteq> [] \<Longrightarrow> hd (rstrip_with p s) = hd s"
  unfolding rstrip_with_def
  by (metis (no_types, lifting) dropWhile_eq_Nil_conv hd_append2 rev_append rev_rev_ident
      takeWhile_dropWhile_id rev_is_Nil_conv)

lemma lstrip_with_hd: "lstrip_with p s \<noteq> [] \<Longrightarrow> \<not> p (hd (lstrip_with p s))"
  unfolding lstrip_with_def by (simp add: hd_dropWhile)

lemma rstrip_with_Nil: "rstrip_with p [] = []" by (simp add: rstrip_with_def)

lemma sanitize_no_leading_space:
  assumes "sanitize_filename name \<noteq> []"
  shows "\<not> isspace (hd (sanitize_filename name))"
proof -
  let ?r = "fold (\<lambda>char name. str_replace char CHR ''_'' name) invalid_chars name"
  let ?l = "lstrip_with isspace ?r"
  have eq: "sanitize_filename name = rstrip_with (\<lambda>c. c \<in> set ''.'') (rstrip_with isspace ?l)"
    by (simp add: sanitize_filename_def str_rstrip_def str_strip_def)
  with assms have ne1: "rstrip_with isspace ?l \<noteq> []" by (auto simp: rstrip_with_Nil)
  then have ne2: "?l \<noteq> []" by (auto simp: rstrip_with_Nil)
  have "hd (sanitize_filename name) = hd ?l"
    using assms eq ne1 by (simp add: rstrip_with_hd)
  with lstrip_with_hd [OF ne2] show ?thesis by simp
qed

text \<open>
  Claim C9 says that a sanitized title has no reserved character, no trailing dot and no
  leading or trailing whitespace. The first two and the leading whitespace hold
  (\<open>sanitize_no_invalid\<close>, \<open>sanitize_no_trailing_dot\<close>, \<open>sanitize_no_leading_space\<close>).
  The function strips whitespace before it strips the dots, so a blank that stood before
  the trailing dots stays: the title \<open>"a ."\<close> becomes \<open>"a "\<close>, which ends in a blank.
\<close>

theorem sanitize_filename_trailing_space:
  "sanitize_filename ''a .'' = ''a '' \<and> isspace (last (sanitize_filename ''a .''))"
  by (simp add: sanitize_filename_def invalid_chars_def str_replace_def str_rstrip_def
      str_strip_def rstrip_with_def lstrip_with_def isspace_def)

section \<open>The queue and the counters of main\<close>

lemma heap_update_queue_display [simp]: "heap (update_queue_display s) = heap s"
  by (simp add: update_queue_display_def Let_def)

lemma queue_update_queue_display [simp]: "download_queue (update_queue_display s) = download_queue s"
  by (simp add: update_queue_display_def Let_def)

lemma queue_view_update_queue_display [simp]: "queue_view (update_queue_display s) = queue_view s"
  by (simp add: queue_view_def)

lemma text_update_queue_display:
  "w_text (win (update_queue_display s)) ''-QUEUE-TEXT-''
     = (if queue_view s \<noteq> [] then str_join '' | '' (queue_view s) else ''Queue is empty'')"
  by (simp add: update_queue_display_def Let_def set_text_def)

lemma add_to_queue_valid:
  assumes "startswith u ''http://'' \<or> startswith u ''https://''"
  shows "add_to_queue u s =
     (update_queue_display (s\<lparr> heap := (heap s)(next_ref s := \<lparr> title = ''Loading...'', url = u, total = 0, entries = [] \<rparr>),
            next_ref := Suc (next_ref s), download_queue := download_queue s @ [next_ref s] \<rparr>))
       \<lparr> win := set_status ''Fetching info...'' ''#5DE2E7''
            (win (update_queue_display (s\<lparr> heap := (heap s)(next_ref s := \<lparr> title = ''Loading...'', url = u, total = 0, entries = [] \<rparr>),
            next_ref := Suc (next_ref s), download_queue := download_queue s @ [next_ref s] \<rparr>))),
         threads := threads s @ [(next_ref s, u)] \<rparr>"
  using assms by (simp add: add_to_queue_def Let_def update_queue_display_def)

lemma add_to_queue_queue:
  assumes "startswith u ''http://'' \<or> startswith u ''https://''"
  shows "download_queue (add_to_queue u s) = download_queue s @ [next_ref s]"
  by (simp add: add_to_queue_valid [OF assms])

lemma add_to_queue_heap:
  assumes "startswith u ''http://'' \<or> startswith u ''https://''"
  shows "heap (add_to_queue u s) = (heap s)(next_ref s := \<lparr> title = ''Loading...'', url = u, total = 0, entries = [] \<rparr>)"
  by (simp add: add_to_queue_valid [OF assms])

lemma add_to_queue_view:
  assumes "startswith u ''http://'' \<or> startswith u ''https://''" and "refs_allocated s"
  shows "queue_view (add_to_queue u s) = ''Loading...'' # queue_view s"
proof -
  from assms(2) have "\<And>item. item \<in> set (download_queue s) \<Longrightarrow> item \<noteq> next_ref s"
    by (auto simp: refs_allocated_def list_all_iff)
  then show ?thesis
    by (simp add: queue_view_def add_to_queue_queue [OF assms(1)] add_to_queue_heap [OF assms(1)]
        display_title_def)
qed

lemma add_to_queue_text:
  assumes "startswith u ''http://'' \<or> startswith u ''https://''"
  shows "w_text (win (add_to_queue u s)) ''-QUEUE-TEXT-'' = str_join '' | '' (queue_view (add_to_queue u s))"
proof -
  let ?s1 = "s\<lparr> heap := (heap s)(next_ref s := \<lparr> title = ''Loading...'', url = u, total = 0, entries = [] \<rparr>),
            next_ref := Suc (next_ref s), download_queue := download_queue s @ [next_ref s] \<rparr>"
  have "queue_view ?s1 \<noteq> []" by (simp add: queue_view_def)
  moreover have "queue_view (add_to_queue u s) = queue_view ?s1"
    by (simp add: add_to_queue_valid [OF assms] queue_view_def)
  moreover have "w_text (win (add_to_queue u s)) ''-QUEUE-TEXT-'' = w_text (win (update_queue_display ?s1)) ''-QUEUE-TEXT-''"
    by (simp add: add_to_queue_valid [OF assms] set_status_def set_text_def set_color_def)
  ultimately show ?thesis by (simp add: text_update_queue_display)
qed

lemma queue_update_counters [simp]: "download_queue (update_counters fp s) = download_queue s"
  by (simp add: update_counters_def Let_def)

lemma remove_last_queue: "download_queue (remove_last fp s) = butlast (download_queue s)"
  by (simp add: remove_last_def)

lemma start_download_picks_last:
  assumes "start_download vals s = Inr s'" "download_queue s \<noteq> []" "current_download s = None" "0 < initial_total s"
  shows "current_download s' = Some (last (download_queue s)) \<and> download_queue s' = download_queue s"
  using assms by (auto simp: start_download_def Let_def split: if_splits sum.splits)

lemma queue_complete_pops_last: 
  "download_queue (queue_complete_event s) = download_queue s
   \<or> download_queue (queue_complete_event s) = butlast (download_queue s)"
  by (simp add: queue_complete_event_def)

lemma counters_update_queue_display [simp]: "counters (update_queue_display s) = counters s"
  by (simp add: counters_def update_queue_display_def Let_def)

lemma counters_update_counters [simp]: "counters (update_counters fp s) = counters s"
  by (simp add: counters_def update_counters_def Let_def)

lemma counters_add_to_queue [simp]: "counters (add_to_queue u s) = counters s"
  by (simp add: counters_def add_to_queue_def Let_def update_queue_display_def)

lemma counters_view_loop:
  "view_loop fp qt presses s = Inr s' \<Longrightarrow> counters s' = counters s"
proof (induction fp qt presses s rule: view_loop.induct)
  case (1 fp queue_titles s)
  then show ?case by simp
next
  case (2 fp queue_titles presses s)
  then show ?case by simp
next
  case (3 fp queue_titles selected_title presses s)
  show ?case
  proof (cases "index_of selected_title queue_titles")
    case None
    with "3.prems" show ?thesis by simp
  next
    case (Some selected_index)
    show ?thesis
    proof (cases "selected_index < length (download_queue s)")
      case True
      let ?k = "length (download_queue s) - 1 - selected_index"
      let ?s1 = "s\<lparr> download_queue := take ?k (download_queue s) @ drop (Suc ?k) (download_queue s) \<rparr>"
      from "3.prems" Some True
      have run: "view_loop fp (numbered_titles ?s1) presses (update_counters fp (update_queue_display ?s1)) = Inr s'"
        by (simp add: Let_def)
      from "3.IH"(1) [OF Some True refl refl refl run]
      have "counters s' = counters (update_counters fp (update_queue_display ?s1))" .
      moreover have "counters ?s1 = counters s" by (simp add: counters_def)
      ultimately show ?thesis by simp
    next
      case False
      with "3.prems" Some have "view_loop fp queue_titles presses s = Inr s'" by simp
      from "3.IH"(2) [OF Some False this] show ?thesis .
    qed
  qed
qed

lemma counters_choose_dir [simp]: "counters (choose_dir fd s) = counters s"
  by (simp add: counters_def choose_dir_def Let_def)

lemma counters_start_download: "start_download vals s = Inr s' \<Longrightarrow> counters s' = counters s"
  by (auto simp: counters_def start_download_def Let_def split: if_splits sum.splits)

lemma counters_status_event [simp]: "counters (status_event vals s) = counters s"
  by (simp add: counters_def status_event_def Let_def)

lemma counters_file_progress_event: "file_progress_event fp s = Inr s' \<Longrightarrow> counters s' = counters s"
  by (auto simp: counters_def file_progress_event_def Let_def split: if_splits option.splits)

lemma counters_queue_complete_event [simp]: "counters (queue_complete_event s) = counters s"
  by (simp add: counters_def queue_complete_event_def update_queue_display_def Let_def)

lemma counters_thread_end_event [simp]: "counters (thread_end_event s) = counters s"
  by (simp add: counters_def thread_end_event_def Let_def)

lemma counters_remove_last [simp]: "counters (remove_last fp s) = counters s"
  by (simp add: remove_last_def) (simp add: counters_def)

lemma counters_clear_queue [simp]: "counters (clear_queue fp s) = (0, 0)"
  by (simp add: clear_queue_def) (simp add: counters_def)

lemma counters_cancel_download [simp]: "counters (cancel_download fp s) = (0, 0)"
  by (simp add: cancel_download_def Let_def) (simp add: counters_def)

lemma counters_add_queue_event:
  "counters (add_queue_event vals s) = (if str_strip (val_url vals) \<noteq> [] then (0, 0) else counters s)"
  by (simp add: add_queue_event_def Let_def counters_def)

lemma counters_fetch_title [simp]: "counters (fetch_title fp outcome item u s) = counters s"
proof -
  have "counters (s\<lparr>heap := h\<rparr>) = counters s" for h by (simp add: counters_def)
  moreover have "counters (s'\<lparr>download_queue := q, win := w\<rparr>) = counters s'" for s' q w
    by (simp add: counters_def)
  moreover have "counters (s'\<lparr>win := w\<rparr>) = counters s'" for s' w
    by (simp add: counters_def)
  ultimately show ?thesis
    by (simp add: fetch_title_def Let_def split: option.splits)
qed

lemma drain_counters_mono:
  "processed_files s \<le> processed_files (drain fp ms s) \<and> downloaded_files s \<le> downloaded_files (drain fp ms s)"
proof (induction ms arbitrary: s)
  case Nil
  then show ?case by simp
next
  case (Cons m ms)
  obtain msg_type v where m: "m = (msg_type, v)" by (cases m)
  let ?s1 = "s\<lparr> msg_value := Some v \<rparr>"
  let ?s2 = "(if msg_type = ''-DOWNLOADED-PROGRESS-''
               then ?s1\<lparr> downloaded_files := downloaded_files ?s1 + 1 \<rparr>
               else if msg_type = ''-PROCESSED-PROGRESS-''
               then (let s = ?s1\<lparr> processed_files := processed_files ?s1 + 1 \<rparr>
                     in if concurrent_mode s
                        then s\<lparr> processed_current := processed_current s + 1 \<rparr> else s)
               else ?s1\<lparr> posted := posted ?s1 @ [(msg_type, v)] \<rparr>)"
  have step: "drain fp (m # ms) s = drain fp ms (update_counters fp ?s2)"
    by (simp add: m Let_def)
  have "counters (update_counters fp ?s2) = counters ?s2" by simp
  moreover have "processed_files s \<le> processed_files ?s2 \<and> downloaded_files s \<le> downloaded_files ?s2"
    by (simp add: Let_def)
  ultimately have "processed_files s \<le> processed_files (update_counters fp ?s2)
      \<and> downloaded_files s \<le> downloaded_files (update_counters fp ?s2)"
    by (simp add: counters_def)
  with Cons.IH [of "update_counters fp ?s2"] show ?case
    unfolding step by linarith
qed

lemma handle_event_counters:
  assumes "handle_event fp rd s = Inr (s', stop)"
  shows "counters s' = counters s
       \<or> counters s' = (0, 0)
          \<and> (rd_event rd = Some ''-CLEAR-QUEUE-'' \<or> rd_event rd = Some ''-CANCEL-''
             \<or> rd_event rd = Some ''-ADD-QUEUE-'' \<and> str_strip (val_url (rd_values rd)) \<noteq> [])"
proof (cases "rd_event rd")
  case None
  with assms show ?thesis by (simp add: handle_event_def)
next
  case (Some event)
  consider "event = ''-EXIT-''" | "event = ''-ADD-QUEUE-''" | "event = ''-CLEAR-QUEUE-''"
    | "event = ''-VIEW-QUEUE-''" | "event = ''-REMOVE-LAST-''" | "event = ''-CONCURRENT-''"
    | "event = ''-CHOOSE-DIR-''" | "event = ''-DOWNLOAD-''" | "event = ''-CANCEL-''"
    | "event = ''-STATUS-''" | "event = ''-FILE-PROGRESS-''" | "event = ''-QUEUE-COMPLETE-''"
    | "event = ''-THREAD-END-''"
    | "event \<notin> set [''-EXIT-'', ''-ADD-QUEUE-'', ''-CLEAR-QUEUE-'', ''-VIEW-QUEUE-'', ''-REMOVE-LAST-'',
         ''-CONCURRENT-'', ''-CHOOSE-DIR-'', ''-DOWNLOAD-'', ''-CANCEL-'', ''-STATUS-'',
         ''-FILE-PROGRESS-'', ''-QUEUE-COMPLETE-'', ''-THREAD-END-'']"
    by auto
  then show ?thesis
  proof cases
    case 1
    with assms Some show ?thesis by (simp add: handle_event_def)
  next
    case 2
    with assms Some have "s' = add_queue_event (rd_values rd) s" by (simp add: handle_event_def)
    with 2 Some show ?thesis by (simp add: counters_add_queue_event)
  next
    case 3
    with assms Some have "s' = clear_queue fp s" by (simp add: handle_event_def)
    with 3 Some show ?thesis by simp
  next
    case 4
    with assms Some have "view_loop fp (numbered_titles s) (rd_view rd) s = Inr s'"
      by (simp add: handle_event_def split: sum.splits)
    then show ?thesis by (simp add: counters_view_loop)
  next
    case 5
    with assms Some have "s' = remove_last fp s" by (simp add: handle_event_def)
    then show ?thesis by simp
  next
    case 6
    with assms Some have "s' = s\<lparr> concurrent_mode := val_concurrent (rd_values rd) \<rparr>"
      by (simp add: handle_event_def)
    then show ?thesis by (simp add: counters_def)
  next
    case 7
    with assms Some have "s' = choose_dir (rd_folder rd) s" by (simp add: handle_event_def)
    then show ?thesis by simp
  next
    case 8
    with assms Some have "start_download (rd_values rd) s = Inr s'"
      by (simp add: handle_event_def split: sum.splits)
    then show ?thesis by (simp add: counters_start_download)
  next
    case 9
    with assms Some have "s' = cancel_download fp s" by (simp add: handle_event_def)
    with 9 Some show ?thesis by simp
  next
    case 10
    with assms Some have "s' = status_event (rd_values rd) s" by (simp add: handle_event_def)
    then show ?thesis by simp
  next
    case 11
    with assms Some have "file_progress_event fp s = Inr s'"
      by (simp add: handle_event_def split: sum.splits)
    then show ?thesis by (simp add: counters_file_progress_event)
  next
    case 12
    with assms Some have "s' = queue_complete_event s" by (simp add: handle_event_def)
    then show ?thesis by simp
  next
    case 13
    with assms Some have "s' = thread_end_event s" by (simp add: handle_event_def)
    then show ?thesis by simp
  next
    case 14
    with assms Some have "s' = s" by (simp add: handle_event_def)
    then show ?thesis by simp
  qed
qed

lemma refs_allocated_initial: "refs_allocated (initial_state folder subfolder config)"
  by (simp add: refs_allocated_def initial_state_def)

lemma refs_allocated_add_to_queue: "refs_allocated s \<Longrightarrow> refs_allocated (add_to_queue u s)"
  by (auto simp: refs_allocated_def add_to_queue_def Let_def update_queue_display_def list_all_iff)

text \<open>
  The entries of the queue are allocated in the initial state, and every branch of the main
  loop, the drain and the resolving thread keep them so.
\<close>

lemma refs_allocated_shrink:
  assumes "refs_allocated s" and "set (download_queue s') \<subseteq> set (download_queue s)"
    and "next_ref s' = next_ref s"
  shows "refs_allocated s'"
  using assms by (auto simp: refs_allocated_def list_all_iff)

lemma refs_update_counters [simp]: "next_ref (update_counters fp s) = next_ref s"
  by (simp add: update_counters_def Let_def)

lemma refs_update_queue_display [simp]: "next_ref (update_queue_display s) = next_ref s"
  by (simp add: update_queue_display_def Let_def)

lemma refs_allocated_shown [simp]:
  "refs_allocated (update_counters fp s) = refs_allocated s"
  "refs_allocated (update_queue_display s) = refs_allocated s"
  by (simp_all add: refs_allocated_def)

lemma refs_allocated_add_queue_event:
  "refs_allocated s \<Longrightarrow> refs_allocated (add_queue_event vals s)"
proof -
  assume a: "refs_allocated s"
  have "refs_allocated (s'\<lparr> win := w1, downloaded_files := 0, processed_files := 0,
            initial_total := n, win := w2 \<rparr>) = refs_allocated s'" for s' w1 w2 n
    by (simp add: refs_allocated_def)
  with a refs_allocated_add_to_queue [OF a] show ?thesis
    by (simp add: add_queue_event_def Let_def)
qed

lemma refs_allocated_view_loop:
  "view_loop fp qt presses s = Inr s' \<Longrightarrow> refs_allocated s \<Longrightarrow> refs_allocated s'"
proof (induction fp qt presses s rule: view_loop.induct)
  case (1 fp queue_titles s)
  then show ?case by simp
next
  case (2 fp queue_titles presses s)
  then show ?case by simp
next
  case (3 fp queue_titles selected_title presses s)
  show ?case
  proof (cases "index_of selected_title queue_titles")
    case None
    with "3.prems" show ?thesis by simp
  next
    case (Some selected_index)
    show ?thesis
    proof (cases "selected_index < length (download_queue s)")
      case True
      let ?k = "length (download_queue s) - 1 - selected_index"
      let ?s1 = "s\<lparr> download_queue := take ?k (download_queue s) @ drop (Suc ?k) (download_queue s) \<rparr>"
      from "3.prems"(1) Some True
      have run: "view_loop fp (numbered_titles ?s1) presses (update_counters fp (update_queue_display ?s1)) = Inr s'"
        by (simp add: Let_def)
      have "set (download_queue ?s1) \<subseteq> set (download_queue s)"
        by (auto dest: in_set_takeD in_set_dropD)
      with "3.prems"(2) have "refs_allocated ?s1"
        by (rule refs_allocated_shrink) simp
      then have "refs_allocated (update_counters fp (update_queue_display ?s1))" by simp
      from "3.IH"(1) [OF Some True refl refl refl run this] show ?thesis .
    next
      case False
      with "3.prems" Some have "view_loop fp queue_titles presses s = Inr s'" by simp
      from "3.IH"(2) [OF Some False this "3.prems"(2)] show ?thesis .
    qed
  qed
qed

lemma refs_allocated_start_download:
  "start_download vals s = Inr s' \<Longrightarrow> refs_allocated s \<Longrightarrow> refs_allocated s'"
  by (auto simp: start_download_def Let_def refs_allocated_def split: if_splits sum.splits)

lemma refs_allocated_file_progress_event:
  "file_progress_event fp s = Inr s' \<Longrightarrow> refs_allocated s \<Longrightarrow> refs_allocated s'"
  by (auto simp: file_progress_event_def Let_def refs_allocated_def split: if_splits option.splits)

lemma refs_allocated_simple:
  assumes "refs_allocated s"
  shows "refs_allocated (clear_queue fp s)" "refs_allocated (remove_last fp s)"
    "refs_allocated (choose_dir fd s)" "refs_allocated (cancel_download fp s)"
    "refs_allocated (status_event vals s)" "refs_allocated (queue_complete_event s)"
    "refs_allocated (thread_end_event s)"
proof -
  show "refs_allocated (clear_queue fp s)"
    by (simp add: clear_queue_def) (simp add: refs_allocated_def)
  from assms show "refs_allocated (remove_last fp s)"
    by (auto simp: remove_last_def refs_allocated_def list_all_iff dest: in_set_butlastD)
  from assms show "refs_allocated (choose_dir fd s)"
    by (simp add: choose_dir_def Let_def refs_allocated_def)
  from assms show "refs_allocated (cancel_download fp s)"
    by (simp add: cancel_download_def Let_def) (simp add: refs_allocated_def)
  from assms show "refs_allocated (status_event vals s)"
    by (simp add: status_event_def Let_def refs_allocated_def)
  from assms show "refs_allocated (queue_complete_event s)"
    by (auto simp: queue_complete_event_def refs_allocated_def list_all_iff dest: in_set_butlastD)
  from assms show "refs_allocated (thread_end_event s)"
    by (simp add: thread_end_event_def Let_def refs_allocated_def)
qed

lemma refs_allocated_handle_event:
  assumes "handle_event fp rd s = Inr (s', stop)" and "refs_allocated s"
  shows "refs_allocated s'"
proof (cases "rd_event rd")
  case None
  with assms show ?thesis by (simp add: handle_event_def)
next
  case (Some event)
  note simple = refs_allocated_simple [OF assms(2)] refs_allocated_add_queue_event [OF assms(2)]
  show ?thesis
  proof (cases "event = ''-VIEW-QUEUE-'' \<or> event = ''-DOWNLOAD-'' \<or> event = ''-FILE-PROGRESS-''")
    case True
    then consider "event = ''-VIEW-QUEUE-''" | "event = ''-DOWNLOAD-''" | "event = ''-FILE-PROGRESS-''"
      by blast
    then show ?thesis
    proof cases
      case 1
      with assms(1) Some have "view_loop fp (numbered_titles s) (rd_view rd) s = Inr s'"
        by (simp add: handle_event_def split: sum.splits)
      then show ?thesis using assms(2) by (rule refs_allocated_view_loop)
    next
      case 2
      with assms(1) Some have "start_download (rd_values rd) s = Inr s'"
        by (simp add: handle_event_def split: sum.splits)
      then show ?thesis using assms(2) by (rule refs_allocated_start_download)
    next
      case 3
      with assms(1) Some have "file_progress_event fp s = Inr s'"
        by (simp add: handle_event_def split: sum.splits)
      then show ?thesis using assms(2) by (rule refs_allocated_file_progress_event)
    qed
  next
    case False
    have "refs_allocated (s\<lparr> concurrent_mode := b \<rparr>)" for b
      using assms(2) by (simp add: refs_allocated_def)
    with assms Some False simple show ?thesis
      by (auto simp: handle_event_def Let_def split: if_splits)
  qed
qed

lemma refs_allocated_drain: "refs_allocated (drain fp ms s) = refs_allocated s"
proof (induction ms arbitrary: s)
  case Nil
  then show ?case by simp
next
  case (Cons m ms)
  obtain msg_type v where m: "m = (msg_type, v)" by (cases m)
  have "refs_allocated (s'\<lparr> downloaded_files := a \<rparr>) = refs_allocated s'"
    "refs_allocated (s'\<lparr> processed_files := a \<rparr>) = refs_allocated s'"
    "refs_allocated (s'\<lparr> processed_current := a \<rparr>) = refs_allocated s'"
    "refs_allocated (s'\<lparr> posted := p \<rparr>) = refs_allocated s'"
    "refs_allocated (s'\<lparr> msg_value := mv \<rparr>) = refs_allocated s'" for s' a p mv
    by (simp_all add: refs_allocated_def)
  with Cons.IH m show ?case by (simp add: Let_def)
qed

lemma set_remove_first: "remove_first p xs = Some ys \<Longrightarrow> set ys \<subseteq> set xs"
  by (induction xs arbitrary: ys) (auto split: if_splits)

lemma refs_allocated_fetch_title:
  assumes "refs_allocated s"
  shows "refs_allocated (fetch_title fp outcome item u s)"
proof -
  let ?i = "snd (get_playlist_info u outcome)"
  let ?s1 = "s\<lparr> heap := (heap s)(item := ?i) \<rparr>"
  from assms have s1: "refs_allocated ?s1" by (simp add: refs_allocated_def)
  have w: "refs_allocated (s'\<lparr> win := w' \<rparr>) = refs_allocated s'" for s' w'
    by (simp add: refs_allocated_def)
  show ?thesis
  proof (cases "total ?i = 0")
    case True
    show ?thesis
    proof (cases "remove_first (\<lambda>x. heap ?s1 x = heap ?s1 item) (download_queue ?s1)")
      case None
      with True s1 show ?thesis by (simp add: fetch_title_def Let_def)
    next
      case (Some q)
      from set_remove_first [OF Some] s1
      have "refs_allocated (?s1\<lparr> download_queue := q \<rparr>)"
        by (auto simp: refs_allocated_def list_all_iff)
      then have "refs_allocated (?s1\<lparr> download_queue := q, win := w' \<rparr>)" for w'
        by (simp add: refs_allocated_def)
      with True Some show ?thesis by (simp add: fetch_title_def Let_def)
    qed
  next
    case False
    with s1 w show ?thesis by (simp add: fetch_title_def Let_def)
  qed
qed

text \<open>
  Claim C3: the queue is a stack. \<open>add_to_queue\<close> with a valid URL appends the new entry
  at the end of \<open>download_queue\<close>; \<open>-REMOVE-LAST-\<close> removes the entry at that end, and
  \<open>-DOWNLOAD-\<close> takes the entry at that end as \<open>current_download\<close>. Right after the
  enqueue the queue view shows the title of the new entry (the placeholder \<open>Loading...\<close>)
  first and the earlier view after it; the view lists the entries from the newest to the
  oldest. The statement is about the states in which the queue holds allocated entries,
  which are all the states \<open>main\<close> reaches.
\<close>

theorem queue_is_lifo:
  assumes "startswith u ''http://'' \<or> startswith u ''https://''" and "refs_allocated s"
  shows "download_queue (add_to_queue u s) = download_queue s @ [next_ref s]
       \<and> title (heap (add_to_queue u s) (next_ref s)) = ''Loading...''
       \<and> queue_view (add_to_queue u s)
           = display_title (title (heap (add_to_queue u s) (next_ref s))) # queue_view s
       \<and> w_text (win (add_to_queue u s)) ''-QUEUE-TEXT-''
           = str_join '' | '' (queue_view (add_to_queue u s))
       \<and> queue_view s = map (\<lambda>item. display_title (title (heap s item))) (rev (download_queue s))
       \<and> download_queue (remove_last fp s) = butlast (download_queue s)
       \<and> (download_queue s \<noteq> [] \<and> current_download s = None \<and> 0 < initial_total s
            \<and> start_download vals s = Inr s'
          \<longrightarrow> current_download s' = Some (last (download_queue s)))"
proof -
  have "title (heap (add_to_queue u s) (next_ref s)) = ''Loading...''"
    by (simp add: add_to_queue_heap [OF assms(1)])
  moreover from this have "display_title (title (heap (add_to_queue u s) (next_ref s))) = ''Loading...''"
    by (simp add: display_title_def)
  moreover have "start_download vals s = Inr s' \<Longrightarrow> download_queue s \<noteq> [] \<Longrightarrow> current_download s = None
      \<Longrightarrow> 0 < initial_total s \<Longrightarrow> current_download s' = Some (last (download_queue s))"
    using start_download_picks_last by blast
  ultimately show ?thesis
    using add_to_queue_queue [OF assms(1)] add_to_queue_view [OF assms] add_to_queue_text [OF assms(1)]
      remove_last_queue [of fp s]
    by (simp add: queue_view_def)
qed

lemma refs_allocated_two_queued: "refs_allocated two_queued"
  by (simp add: refs_allocated_def two_queued_def)

lemma start_two_queued:
  "start_download (some_values []) two_queued
     = Inr (two_queued\<lparr> session_active := True, current_download := Some 1, current_total := 1,
                         processed_current := 0,
                         win := set_visible ''-CANCEL-'' True (set_visible ''-EXIT-'' False
                           (set_text ''-FILE-PROGRESS-TXT-'' ''0%'' (update_bar ''-FILE-PROGRESS-BAR-'' (VInt 0)
                             (set_status ''Starting...'' ''yellow'' (update_buttons True (win two_queued)))))),
                         cancel_event := False,
                         download_proc := Some \<lparr> l_concurrent = False, l_info = one_clip, l_format = ''mp4'',
                            l_max_workers = None, l_base_folder = ''/home/u/Petice Downloads'' \<rparr>,
                         terminated := False \<rparr>)"
  by (simp add: start_download_def two_queued_def initial_state_def some_values_def Let_def one_clip_def)

theorem queue_is_lifo_witness:
  "(startswith ''https://youtu.be/d4'' ''http://'' \<or> startswith ''https://youtu.be/d4'' ''https://'')
   \<and> refs_allocated two_queued
   \<and> download_queue two_queued = [0, 1]
   \<and> download_queue (add_to_queue ''https://youtu.be/d4'' two_queued) = [0, 1, 2]
   \<and> queue_view two_queued = [''Clip'', ''Songs'']
   \<and> queue_view (add_to_queue ''https://youtu.be/d4'' two_queued) = [''Loading...'', ''Clip'', ''Songs'']
   \<and> w_text (win (add_to_queue ''https://youtu.be/d4'' two_queued)) ''-QUEUE-TEXT-''
        = ''Loading... | Clip | Songs''
   \<and> download_queue (remove_last exact_ops two_queued) = [0]
   \<and> (\<exists>s'. start_download (some_values []) two_queued = Inr s' \<and> current_download s' = Some 1)"
proof -
  have valid: "startswith ''https://youtu.be/d4'' ''http://'' \<or> startswith ''https://youtu.be/d4'' ''https://''"
    by simp
  have view: "queue_view two_queued = [''Clip'', ''Songs'']"
    by (simp add: queue_view_def two_queued_def display_title_def song_list_def one_clip_def)
  have q: "download_queue two_queued = [0, 1]" "next_ref two_queued = 2"
    "current_download two_queued = None" "0 < initial_total two_queued"
    by (simp_all add: two_queued_def initial_state_def)
  note inst = queue_is_lifo [OF valid refs_allocated_two_queued, of exact_ops "some_values []"]
  from start_two_queued obtain s' where
    s': "start_download (some_values []) two_queued = Inr s'" by blast
  from inst [of s'] s' q have "current_download s' = Some 1" by simp
  with s' have "\<exists>s'. start_download (some_values []) two_queued = Inr s' \<and> current_download s' = Some 1"
    by blast
  moreover from inst [of s'] q view
  have "download_queue (add_to_queue ''https://youtu.be/d4'' two_queued) = [0, 1, 2]"
    "queue_view (add_to_queue ''https://youtu.be/d4'' two_queued) = [''Loading...'', ''Clip'', ''Songs'']"
    "download_queue (remove_last exact_ops two_queued) = [0]"
    by (simp_all add: display_title_def)
  moreover from this(2) inst [of s']
  have "w_text (win (add_to_queue ''https://youtu.be/d4'' two_queued)) ''-QUEUE-TEXT-''
        = ''Loading... | Clip | Songs''"
    by simp
  ultimately show ?thesis using valid refs_allocated_two_queued q(1) view by simp
qed

text \<open>
  Claim C10: for a URL that starts with neither \<open>http://\<close> nor \<open>https://\<close>,
  \<open>add_to_queue\<close> changes nothing but the status text, which becomes \<open>Invalid URL\<close> in
  red: the queue and the dictionaries are as before and no resolution is started.
\<close>

theorem add_to_queue_rejects_other_schemes:
  assumes "\<not> startswith u ''http://''" and "\<not> startswith u ''https://''"
  shows "add_to_queue u s
           = s\<lparr> win := (win s)\<lparr> w_text := (w_text (win s))(''-STATUS-TXT-'' := ''Invalid URL''),
                                w_color := (w_color (win s))(''-STATUS-TXT-'' := ''red'') \<rparr> \<rparr>
       \<and> download_queue (add_to_queue u s) = download_queue s
       \<and> threads (add_to_queue u s) = threads s
       \<and> heap (add_to_queue u s) = heap s"
  using assms by (simp add: add_to_queue_def set_status_def set_text_def set_color_def)

theorem add_to_queue_rejects_other_schemes_witness:
  "\<not> startswith ''ftp://host/file'' ''http://'' \<and> \<not> startswith ''ftp://host/file'' ''https://''
   \<and> download_queue (add_to_queue ''ftp://host/file'' two_queued) = [0, 1]
   \<and> threads (add_to_queue ''ftp://host/file'' two_queued) = []
   \<and> w_text (win (add_to_queue ''ftp://host/file'' two_queued)) ''-STATUS-TXT-'' = ''Invalid URL''
   \<and> w_text (win (add_to_queue ''ftp://host/file'' two_queued)) ''-QUEUE-TEXT-''
        = w_text (win two_queued) ''-QUEUE-TEXT-''"
proof -
  have a: "\<not> startswith ''ftp://host/file'' ''http://''" and b: "\<not> startswith ''ftp://host/file'' ''https://''"
    by simp_all
  have "download_queue two_queued = [0, 1]" "threads two_queued = []"
    by (simp_all add: two_queued_def initial_state_def)
  with add_to_queue_rejects_other_schemes [OF a b, of two_queued] a b show ?thesis
    by simp
qed

text \<open>
  Claim C4 says that only a queue-clear or a cancellation resets the two counters, and that
  an enqueue does not. The branch for \<open>-ADD-QUEUE-\<close> sets both to 0 whenever the URL field
  is not blank: pressed in a state where two files were processed and one downloaded, it
  leaves both counters at 0.
\<close>

theorem enqueue_resets_counters:
  "rd_event (press ''-ADD-QUEUE-'' ''https://youtu.be/d4'') \<noteq> Some ''-CLEAR-QUEUE-''
   \<and> rd_event (press ''-ADD-QUEUE-'' ''https://youtu.be/d4'') \<noteq> Some ''-CANCEL-''
   \<and> processed_files two_queued = 2 \<and> downloaded_files two_queued = 1
   \<and> (\<exists>s'. handle_event exact_ops (press ''-ADD-QUEUE-'' ''https://youtu.be/d4'') two_queued = Inr (s', False)
          \<and> processed_files s' = 0 \<and> downloaded_files s' = 0)"
proof -
  have strip: "str_strip ''https://youtu.be/d4'' = ''https://youtu.be/d4''"
    by (simp add: str_strip_def rstrip_with_def lstrip_with_def isspace_def)
  have "handle_event exact_ops (press ''-ADD-QUEUE-'' ''https://youtu.be/d4'') two_queued
          = Inr (add_queue_event (some_values ''https://youtu.be/d4'') two_queued, False)"
    by (simp add: handle_event_def press_def)
  moreover have "counters (add_queue_event (some_values ''https://youtu.be/d4'') two_queued) = (0, 0)"
    by (simp add: counters_add_queue_event some_values_def strip)
  ultimately show ?thesis
    by (simp add: counters_def press_def two_queued_def)
qed

text \<open>
  Claim C4 as amended: the counters are set to 0 by a queue-clear, by a cancellation and by
  \<open>-ADD-QUEUE-\<close> with a URL field that is not blank, and by nothing else. Every other
  branch of the main loop leaves both counters as they are, the drain of the message queue
  only raises them, and the thread that resolves an entry does not touch them.
\<close>

theorem counters_reset_by_clear_cancel_or_add:
  "(handle_event fp rd s = Inr (s', stop) \<longrightarrow>
      counters s' = counters s
      \<or> counters s' = (0, 0)
        \<and> (rd_event rd = Some ''-CLEAR-QUEUE-'' \<or> rd_event rd = Some ''-CANCEL-''
           \<or> rd_event rd = Some ''-ADD-QUEUE-'' \<and> str_strip (val_url (rd_values rd)) \<noteq> []))
   \<and> processed_files s \<le> processed_files (drain fp ms s)
   \<and> downloaded_files s \<le> downloaded_files (drain fp ms s)
   \<and> counters (fetch_title fp outcome item u s) = counters s
   \<and> counters (clear_queue fp s) = (0, 0)
   \<and> counters (cancel_download fp s) = (0, 0)
   \<and> (str_strip (val_url vals) \<noteq> [] \<longrightarrow> counters (add_queue_event vals s) = (0, 0))"
  using handle_event_counters [of fp rd s s' stop] drain_counters_mono [of s fp ms]
  by (simp add: counters_add_queue_event)

theorem counters_reset_by_clear_cancel_or_add_witness:
  "counters two_queued = (2, 1)
   \<and> str_strip (val_url (some_values ''https://youtu.be/d4'')) \<noteq> []
   \<and> (\<exists>s'. handle_event exact_ops (press ''-REMOVE-LAST-'' []) two_queued = Inr (s', False)
          \<and> counters s' = (2, 1))
   \<and> (\<exists>s'. handle_event exact_ops (press ''-CANCEL-'' []) two_queued = Inr (s', False)
          \<and> counters s' = (0, 0))
   \<and> counters (add_queue_event (some_values ''https://youtu.be/d4'') two_queued) = (0, 0)
   \<and> 2 \<le> processed_files (drain exact_ops [processed_msg, downloaded_msg] two_queued)"
proof -
  have c: "counters two_queued = (2, 1)" "processed_files two_queued = 2"
    by (simp_all add: counters_def two_queued_def)
  have strip: "str_strip (val_url (some_values ''https://youtu.be/d4'')) \<noteq> []"
    by (simp add: some_values_def str_strip_def rstrip_with_def lstrip_with_def isspace_def)
  have r: "handle_event exact_ops (press ''-REMOVE-LAST-'' []) two_queued
          = Inr (remove_last exact_ops two_queued, False)"
    by (simp add: handle_event_def press_def)
  have k: "handle_event exact_ops (press ''-CANCEL-'' []) two_queued
          = Inr (cancel_download exact_ops two_queued, False)"
    by (simp add: handle_event_def press_def)
  have ev: "rd_event (press ''-REMOVE-LAST-'' []) = Some ''-REMOVE-LAST-''"
    by (simp add: press_def)
  from counters_reset_by_clear_cancel_or_add
    [of exact_ops "press ''-REMOVE-LAST-'' []" two_queued "remove_last exact_ops two_queued" False]
    r ev c
  have "counters (remove_last exact_ops two_queued) = (2, 1)" by simp
  with r have one: "\<exists>s'. handle_event exact_ops (press ''-REMOVE-LAST-'' []) two_queued = Inr (s', False)
          \<and> counters s' = (2, 1)" by simp
  from counters_reset_by_clear_cancel_or_add [of exact_ops _ two_queued _ _ "[processed_msg, downloaded_msg]"
      _ _ _ "some_values ''https://youtu.be/d4''"] strip c
  have rest: "counters (cancel_download exact_ops two_queued) = (0, 0)"
    "counters (add_queue_event (some_values ''https://youtu.be/d4'') two_queued) = (0, 0)"
    "2 \<le> processed_files (drain exact_ops [processed_msg, downloaded_msg] two_queued)"
    by simp_all
  from rest(1) k have two: "\<exists>s'. handle_event exact_ops (press ''-CANCEL-'' []) two_queued = Inr (s', False)
          \<and> counters s' = (0, 0)" by simp
  from c(1) strip one two rest(2,3) show ?thesis by simp
qed

section \<open>Properties of get_playlist_info\<close>

lemma try_extract_result:
  "try_extract u outcome = Inr r \<Longrightarrow> 1 \<le> total r \<and> total r = length (entries r) \<and> url r = u"
  by (auto simp: try_extract_def Let_def Suc_le_eq split: extract_outcome.splits option.splits
      field.splits if_splits)

lemma resolve_loop_three:
  "resolve_loop u outcome [0, 1, 2] =
     (case try_extract u (outcome 0) of
        Inr r \<Rightarrow> ([ExtractInfo], Some r)
      | Inl e \<Rightarrow>
         (case try_extract u (outcome 1) of
            Inr r \<Rightarrow> ([ExtractInfo, Sleep 1, ExtractInfo], Some r)
          | Inl e \<Rightarrow>
             (case try_extract u (outcome 2) of
                Inr r \<Rightarrow> ([ExtractInfo, Sleep 1, ExtractInfo, Sleep 1, ExtractInfo], Some r)
              | Inl e \<Rightarrow>
                  ([ExtractInfo, Sleep 1, ExtractInfo, Sleep 1, ExtractInfo, Sleep 1], None))))"
  by (simp split: sum.splits)

lemma range_three: "[0 ..< 3] = [0, 1, 2]"
  by (simp add: upt_rec)

text \<open>
  Claim C8: \<open>get_playlist_info\<close> always returns. It calls \<open>extract_info\<close> once per attempt
  and at most three times, sleeps one second after each attempt that fails, and gives the
  result of the first attempt that succeeds, whose item count is at least 1. When all three
  attempts fail it returns the sanitized URL as title, no entries and the count 0.
\<close>

theorem get_playlist_info_total:
  "(let (effs, r) = get_playlist_info u outcome;
        n = failed_attempts u outcome
    in effs = concat (replicate n [ExtractInfo, Sleep 1]) @ (if n < 3 then [ExtractInfo] else [])
       \<and> count_list effs ExtractInfo \<le> 3
       \<and> url r = u
       \<and> (if n = 3
           then total r = 0 \<and> entries r = [] \<and> title r = sanitize_filename u
           else try_extract u (outcome n) = Inr r \<and> 1 \<le> total r \<and> total r = length (entries r)))"
proof (cases "try_extract u (outcome 0)")
  case (Inr r)
  then have "get_playlist_info u outcome = ([ExtractInfo], r)" "failed_attempts u outcome = 0"
    by (simp_all add: get_playlist_info_def range_three resolve_loop_three failed_attempts_def
        attempt_fails_def)
  with Inr try_extract_result [OF Inr] show ?thesis by simp
next
  case first: (Inl e0)
  show ?thesis
  proof (cases "try_extract u (outcome 1)")
    case (Inr r)
    with first have "get_playlist_info u outcome = ([ExtractInfo, Sleep 1, ExtractInfo], r)"
      "failed_attempts u outcome = 1"
      by (simp_all add: get_playlist_info_def range_three resolve_loop_three failed_attempts_def
          attempt_fails_def)
    with Inr try_extract_result [OF Inr] show ?thesis by simp
  next
    case second: (Inl e1)
    show ?thesis
    proof (cases "try_extract u (outcome 2)")
      case (Inr r)
      with first second
      have "get_playlist_info u outcome
              = ([ExtractInfo, Sleep 1, ExtractInfo, Sleep 1, ExtractInfo], r)"
        "failed_attempts u outcome = 2"
        by (simp_all add: get_playlist_info_def range_three resolve_loop_three failed_attempts_def
            attempt_fails_def)
      with Inr try_extract_result [OF Inr] show ?thesis by (simp add: numeral_2_eq_2)
    next
      case (Inl e2)
      with first second
      have "get_playlist_info u outcome
              = ([ExtractInfo, Sleep 1, ExtractInfo, Sleep 1, ExtractInfo, Sleep 1],
                 \<lparr> title = sanitize_filename u, url = u, total = 0, entries = [] \<rparr>)"
        "failed_attempts u outcome = 3"
        by (simp_all add: get_playlist_info_def range_three resolve_loop_three failed_attempts_def
            attempt_fails_def)
      then show ?thesis by (simp add: numeral_3_eq_3)
    qed
  qed
qed

lemma get_playlist_info_examples:
  "get_playlist_info ''https://youtu.be/c3'' unavailable
     = ([ExtractInfo, Sleep 1, ExtractInfo, Sleep 1, ExtractInfo, Sleep 1],
        \<lparr> title = ''https___youtu.be_c3'', url = ''https://youtu.be/c3'', total = 0, entries = [] \<rparr>)"
  "get_playlist_info ''https://youtu.be/c3'' second_time
     = ([ExtractInfo, Sleep 1, ExtractInfo],
        \<lparr> title = ''Clip_ one'', url = ''https://youtu.be/c3'', total = 1,
          entries = [\<lparr> v_id = Val ''c3'', v_url = Absent, v_title = Val ''Clip: one'' \<rparr>] \<rparr>)"
  by (simp_all add: get_playlist_info_def range_three resolve_loop_three try_extract_def
      unavailable_def second_time_def sanitize_filename_def invalid_chars_def str_replace_def
      str_rstrip_def str_strip_def rstrip_with_def lstrip_with_def isspace_def video.truncate_def)

theorem get_playlist_info_total_witness:
  "failed_attempts ''https://youtu.be/c3'' unavailable = 3
   \<and> get_playlist_info ''https://youtu.be/c3'' unavailable
       = ([ExtractInfo, Sleep 1, ExtractInfo, Sleep 1, ExtractInfo, Sleep 1],
          \<lparr> title = ''https___youtu.be_c3'', url = ''https://youtu.be/c3'', total = 0, entries = [] \<rparr>)
   \<and> failed_attempts ''https://youtu.be/c3'' second_time = 1
   \<and> fst (get_playlist_info ''https://youtu.be/c3'' second_time) = [ExtractInfo, Sleep 1, ExtractInfo]
   \<and> total (snd (get_playlist_info ''https://youtu.be/c3'' second_time)) = 1"
proof -
  have "failed_attempts ''https://youtu.be/c3'' unavailable = 3"
    "failed_attempts ''https://youtu.be/c3'' second_time = 1"
    by (simp_all add: failed_attempts_def attempt_fails_def try_extract_def unavailable_def
        second_time_def)
  with get_playlist_info_total [of "''https://youtu.be/c3''" unavailable]
    get_playlist_info_total [of "''https://youtu.be/c3''" second_time]
    get_playlist_info_examples
  show ?thesis by simp
qed

section \<open>Properties of the job's folder\<close>

lemma folder_loop_free: "folder_loop fs original_folder playlist_folder suffix \<notin> set fs"
proof (induction fs original_folder playlist_folder suffix rule: folder_loop.induct)
  case (1 fs original_folder playlist_folder suffix)
  show ?case
  proof (cases "playlist_folder \<in> set fs")
    case True
    with 1 show ?thesis by (subst folder_loop.simps) simp
  next
    case False
    then show ?thesis by (subst folder_loop.simps) simp
  qed
qed

lemma folder_loop_first_free:
  assumes "playlist_folder \<in> set fs" and "suffix \<le> k"
    and "\<forall>j. suffix \<le> j \<and> j < k \<longrightarrow> suffixed original_folder j \<in> set fs"
    and "suffixed original_folder k \<notin> set fs"
  shows "folder_loop fs original_folder playlist_folder suffix = suffixed original_folder k"
  using assms
proof (induction "k - suffix" arbitrary: suffix playlist_folder)
  case 0
  then have "suffix = k" by simp
  with "0.prems" have "folder_loop fs original_folder (suffixed original_folder k) (Suc k)
      = suffixed original_folder k"
    by (subst folder_loop.simps) simp
  with "0.prems" \<open>suffix = k\<close> show ?case by (subst folder_loop.simps) simp
next
  case (Suc d)
  then have lt: "suffix < k" by simp
  with Suc.prems have taken: "suffixed original_folder suffix \<in> set fs" by simp
  have "folder_loop fs original_folder (suffixed original_folder suffix) (Suc suffix)
          = suffixed original_folder k"
  proof (rule Suc.hyps(1))
    show "d = k - Suc suffix" using Suc.hyps(2) by simp
    show "suffixed original_folder suffix \<in> set fs" by (rule taken)
    show "Suc suffix \<le> k" using lt by simp
    show "\<forall>j. Suc suffix \<le> j \<and> j < k \<longrightarrow> suffixed original_folder j \<in> set fs"
      using Suc.prems(3) by simp
    show "suffixed original_folder k \<notin> set fs" by (rule Suc.prems(4))
  qed
  with Suc.prems(1) show ?case by (subst folder_loop.simps) simp
qed

lemma makedirs_unique_folder:
  "makedirs fs None (unique_folder fs base t) = Inr (unique_folder fs base t # fs)"
  by (simp add: makedirs_def unique_folder_def Let_def folder_loop_free)

lemma download_process_fs:
  assumes "entries pl \<noteq> []" and "je_makedirs_refusal env = None"
  shows "snd (download_process fp env pl format_choice base)
           = unique_folder (je_fs env) base (title pl) # je_fs env"
  using assms
  by (simp add: download_process_def download_process_try_def Let_def makedirs_unique_folder
      split: prod.splits res.splits)

lemma download_process_concurrent_fs:
  assumes "entries pl \<noteq> []" and "je_makedirs_refusal env = None"
  shows "snd (download_process_concurrent fp env pl format_choice n base)
           = unique_folder (je_fs env) base (title pl) # je_fs env"
  using assms
  by (simp add: download_process_concurrent_def download_process_concurrent_try_def Let_def
      makedirs_unique_folder split: prod.splits res.splits sum.splits)

text \<open>
  Claim C6: the folder a job creates is never a path that exists. When the folder named
  after the title is free the job takes it; when it exists, the job takes the first of
  \<open>X_1\<close>, \<open>X_2\<close>, ... that does not exist. Both jobs then create that folder, next to the
  ones that were there.
\<close>

theorem unique_folder_never_reuses:
  "unique_folder fs base t \<notin> set fs
   \<and> (path_join base t \<notin> set fs \<longrightarrow> unique_folder fs base t = path_join base t)
   \<and> (path_join base t \<in> set fs \<and> 1 \<le> k
        \<and> (\<forall>j. 1 \<le> j \<and> j < k \<longrightarrow> suffixed (path_join base t) j \<in> set fs)
        \<and> suffixed (path_join base t) k \<notin> set fs
      \<longrightarrow> unique_folder fs base t = suffixed (path_join base t) k)
   \<and> (entries pl \<noteq> [] \<and> je_fs env = fs \<and> title pl = t \<and> je_makedirs_refusal env = None
      \<longrightarrow> snd (download_process fp env pl format_choice base)
            = unique_folder fs base t # fs
          \<and> snd (download_process_concurrent fp env pl format_choice n base)
            = unique_folder fs base t # fs)"
proof -
  have "unique_folder fs base t \<notin> set fs"
    by (simp add: unique_folder_def Let_def folder_loop_free)
  moreover have "path_join base t \<notin> set fs
      \<Longrightarrow> unique_folder fs base t = path_join base t"
    unfolding unique_folder_def Let_def by (subst folder_loop.simps) simp
  moreover have "path_join base t \<in> set fs \<Longrightarrow> 1 \<le> k
      \<Longrightarrow> \<forall>j. 1 \<le> j \<and> j < k \<longrightarrow> suffixed (path_join base t) j \<in> set fs
      \<Longrightarrow> suffixed (path_join base t) k \<notin> set fs
      \<Longrightarrow> unique_folder fs base t = suffixed (path_join base t) k"
    unfolding unique_folder_def Let_def by (rule folder_loop_first_free)
  ultimately show ?thesis
    using download_process_fs [of pl env fp format_choice base]
      download_process_concurrent_fs [of pl env fp format_choice n base]
    by auto
qed

lemma suffixed_examples:
  "suffixed ''/d/Songs'' 1 = ''/d/Songs_1''" "suffixed ''/d/Songs'' 2 = ''/d/Songs_2''"
  by code_simp+

theorem unique_folder_never_reuses_witness:
  "path_join ''/d'' ''Songs'' \<in> set (je_fs quiet_env)
   \<and> suffixed (path_join ''/d'' ''Songs'') 1 \<in> set (je_fs quiet_env)
   \<and> suffixed (path_join ''/d'' ''Songs'') 2 \<notin> set (je_fs quiet_env)
   \<and> unique_folder (je_fs quiet_env) ''/d'' ''Songs'' = ''/d/Songs_2''
   \<and> snd (download_process exact_ops quiet_env song_list ''mp3'' ''/d'')
        = [''/d/Songs_2'', ''/d/Songs'', ''/d/Songs_1'']
   \<and> snd (download_process_concurrent exact_ops quiet_env song_list ''mp3'' 10 ''/d'')
        = [''/d/Songs_2'', ''/d/Songs'', ''/d/Songs_1'']"
proof -
  have pj: "path_join ''/d'' ''Songs'' = ''/d/Songs''" by (simp add: path_join_def)
  have fs: "je_fs quiet_env = [''/d/Songs'', ''/d/Songs_1'']" "je_makedirs_refusal quiet_env = None"
    by (simp_all add: quiet_env_def)
  have pl: "entries song_list \<noteq> []" "title song_list = ''Songs''" by (simp_all add: song_list_def)
  have below: "\<forall>j. 1 \<le> j \<and> j < (2::nat) \<longrightarrow> suffixed (path_join ''/d'' ''Songs'') j \<in> set (je_fs quiet_env)"
  proof (intro allI impI)
    fix j :: nat
    assume "1 \<le> j \<and> j < 2"
    then have "j = 1" by simp
    then have "suffixed (path_join ''/d'' ''Songs'') j = ''/d/Songs_1''"
      by (simp only: pj suffixed_examples)
    then show "suffixed (path_join ''/d'' ''Songs'') j \<in> set (je_fs quiet_env)"
      by (simp add: fs)
  qed
  from unique_folder_never_reuses [of "je_fs quiet_env" "''/d''" "''Songs''" 2 song_list quiet_env
      exact_ops "''mp3''" 10] below pl
  show ?thesis
    by (simp add: pj fs suffixed_examples)
qed

section \<open>Properties of the progress hook\<close>

text \<open>
  Claim C5 says that the byte ratio is used whenever the total size is known, and the
  provider's percentage only otherwise. The hook tests the key \<open>percent\<close> first: for a
  dictionary that carries 10 of 100 bytes and the percentage 50, it reports 50, not 10.
\<close>

theorem percent_field_comes_first:
  "d_downloaded_bytes both_known = Val 10 \<and> d_total_bytes both_known = Val 100
   \<and> percent_of exact_ops 10 100 = 10
   \<and> file_progress exact_ops both_known = Inr 50
   \<and> progress_hook exact_ops False 1 0 both_known = HookDone [file_progress_msg 50] 1"
  by (simp add: both_known_def exact_ops_def py_int_def file_progress_def progress_hook_def
      dict_get_def)

text \<open>
  Claim C5 as amended: a progress callback that reports (the event is not set, the status
  is \<open>downloading\<close>, and the last report is at least 100 ms old) reports the provider's
  percentage, truncated, when the dictionary has one; otherwise the byte ratio against
  \<open>total_bytes\<close> when that is known and not zero; otherwise the byte ratio against
  \<open>total_bytes_estimate\<close> when that is known and not zero; and 0 when the estimate is there
  but is \<open>None\<close> or zero.
\<close>

theorem file_progress_sources:
  "(d_percent d = Val p \<longrightarrow> file_progress fp d = Inr (py_int p))
   \<and> (\<not> known (d_percent d) \<and> d_total_bytes d = Val t \<and> t \<noteq> 0
        \<and> dict_get (d_downloaded_bytes d) (Val 0) = Val b
      \<longrightarrow> file_progress fp d = Inr (percent_of fp b t))
   \<and> (\<not> known (d_percent d) \<and> \<not> truthy (d_total_bytes d) \<and> d_total_bytes_estimate d = Val t
        \<and> t \<noteq> 0 \<and> dict_get (d_downloaded_bytes d) (Val 0) = Val b
      \<longrightarrow> file_progress fp d = Inr (percent_of fp b t))
   \<and> (\<not> known (d_percent d) \<and> \<not> truthy (d_total_bytes d)
        \<and> (d_total_bytes_estimate d = PyNone \<or> d_total_bytes_estimate d = Val 0)
      \<longrightarrow> file_progress fp d = Inr 0)
   \<and> (d_status d = Val ''downloading'' \<and> \<not> too_soon fp now last_time \<and> file_progress fp d = Inr q
      \<longrightarrow> progress_hook fp False now last_time d = HookDone [file_progress_msg q] now)"
proof -
  have one: "d_percent d = Val p \<Longrightarrow> file_progress fp d = Inr (py_int p)"
    by (simp add: file_progress_def dict_get_def)
  have two: "\<not> known (d_percent d) \<Longrightarrow> d_total_bytes d = Val t \<Longrightarrow> t \<noteq> 0
      \<Longrightarrow> dict_get (d_downloaded_bytes d) (Val 0) = Val b
      \<Longrightarrow> file_progress fp d = Inr (percent_of fp b t)"
    by (cases "d_percent d") (simp_all add: file_progress_def dict_get_def known_def py_or_def truthy_def)
  have three: "\<not> known (d_percent d) \<Longrightarrow> \<not> truthy (d_total_bytes d)
      \<Longrightarrow> d_total_bytes_estimate d = Val t \<Longrightarrow> t \<noteq> 0
      \<Longrightarrow> dict_get (d_downloaded_bytes d) (Val 0) = Val b
      \<Longrightarrow> file_progress fp d = Inr (percent_of fp b t)"
    by (cases "d_percent d"; cases "d_total_bytes d")
      (simp_all add: file_progress_def dict_get_def known_def py_or_def truthy_def)
  have four: "\<not> known (d_percent d) \<Longrightarrow> \<not> truthy (d_total_bytes d)
      \<Longrightarrow> d_total_bytes_estimate d = PyNone \<or> d_total_bytes_estimate d = Val 0
      \<Longrightarrow> file_progress fp d = Inr 0"
    by (cases "d_percent d"; cases "d_total_bytes d")
      (auto simp: file_progress_def dict_get_def known_def py_or_def truthy_def)
  have five: "d_status d = Val ''downloading'' \<Longrightarrow> \<not> too_soon fp now last_time
      \<Longrightarrow> file_progress fp d = Inr q
      \<Longrightarrow> progress_hook fp False now last_time d = HookDone [file_progress_msg q] now"
    by (simp add: progress_hook_def dict_get_def)
  from one two three four five show ?thesis by blast
qed

theorem file_progress_sources_witness:
  "file_progress exact_ops both_known = Inr 50
   \<and> file_progress exact_ops (bytes_only (Val 800) Absent) = Inr 50
   \<and> file_progress exact_ops (bytes_only PyNone (Val 1600)) = Inr 25
   \<and> file_progress exact_ops (bytes_only PyNone PyNone) = Inr 0
   \<and> progress_hook exact_ops False 5 0 (bytes_only (Val 800) Absent) = HookDone [file_progress_msg 50] 5"
proof -
  have a: "d_percent both_known = Val 50" "py_int 50 = 50"
    by (simp_all add: both_known_def py_int_def)
  have b: "\<not> known (d_percent (bytes_only x y))" "d_total_bytes (bytes_only x y) = x"
    "d_total_bytes_estimate (bytes_only x y) = y"
    "dict_get (d_downloaded_bytes (bytes_only x y)) (Val 0) = Val 400"
    "d_status (bytes_only x y) = Val ''downloading''" for x y
    by (simp_all add: bytes_only_def known_def dict_get_def)
  have c: "percent_of exact_ops 400 800 = 50" "percent_of exact_ops 400 1600 = 25"
    "\<not> too_soon exact_ops 5 0" "\<not> truthy PyNone"
    by (simp_all add: exact_ops_def py_int_def truthy_def)
  from file_progress_sources [of both_known 50 exact_ops] a
  have r1: "file_progress exact_ops both_known = Inr 50" by simp
  from file_progress_sources [of "bytes_only (Val 800) Absent" _ exact_ops 800 400 5 0 50] b c
  have r2: "file_progress exact_ops (bytes_only (Val 800) Absent) = Inr 50"
    and r5: "progress_hook exact_ops False 5 0 (bytes_only (Val 800) Absent) = HookDone [file_progress_msg 50] 5"
    by simp_all
  from file_progress_sources [of "bytes_only PyNone (Val 1600)" _ exact_ops 1600 400] b c
  have r3: "file_progress exact_ops (bytes_only PyNone (Val 1600)) = Inr 25" by simp
  from file_progress_sources [of "bytes_only PyNone PyNone" _ exact_ops] b c
  have r4: "file_progress exact_ops (bytes_only PyNone PyNone) = Inr 0" by simp
  from r1 r2 r3 r4 r5 show ?thesis by simp
qed

section \<open>The messages of a job\<close>

lemma chatter_status [simp]: "chatter (status_msg t)"
  by (simp add: chatter_def status_msg_def)

lemma chatter_file_progress [simp]: "chatter (file_progress_msg p)"
  by (simp add: chatter_def file_progress_msg_def)

lemma chatter_not_counter [simp]:
  "\<not> chatter processed_msg" "\<not> chatter downloaded_msg" "\<not> chatter thread_end_msg"
  "\<not> chatter (queue_complete_msg pl)"
  by (simp_all add: chatter_def processed_msg_def downloaded_msg_def thread_end_msg_def
      queue_complete_msg_def)

lemma counters_distinct [simp]:
  "processed_msg \<noteq> downloaded_msg" "downloaded_msg \<noteq> processed_msg"
  "processed_msg \<noteq> thread_end_msg" "downloaded_msg \<noteq> thread_end_msg"
  "thread_end_msg \<noteq> processed_msg" "thread_end_msg \<noteq> downloaded_msg"
  "processed_msg \<noteq> queue_complete_msg pl" "downloaded_msg \<noteq> queue_complete_msg pl"
  "queue_complete_msg pl \<noteq> processed_msg" "queue_complete_msg pl \<noteq> downloaded_msg"
  "thread_end_msg \<noteq> queue_complete_msg pl" "queue_complete_msg pl \<noteq> thread_end_msg"
  by (simp_all add: processed_msg_def downloaded_msg_def thread_end_msg_def queue_complete_msg_def)

lemma item_msg_simps [simp]:
  "item_msg processed_msg" "item_msg downloaded_msg" "item_msg (status_msg t)"
  "item_msg (file_progress_msg p)" "\<not> item_msg thread_end_msg" "\<not> item_msg (queue_complete_msg pl)"
  by (simp_all add: item_msg_def)

lemma chatter_item: "list_all chatter ms \<Longrightarrow> list_all item_msg ms"
  by (simp add: list_all_iff item_msg_def)

lemma chatter_count:
  assumes "list_all chatter ms" and "\<not> chatter m"
  shows "count_list ms m = 0"
proof -
  from assms have "m \<notin> set ms" by (auto simp: list_all_iff)
  then show ?thesis by (simp add: count_list_0_iff)
qed

lemma item_msg_count:
  assumes "list_all item_msg ms" and "\<not> item_msg m"
  shows "count_list ms m = 0" and "m \<notin> set ms"
proof -
  from assms show "m \<notin> set ms" by (auto simp: list_all_iff)
  then show "count_list ms m = 0" by (simp add: count_list_0_iff)
qed

lemma chatter_run_hooks: "list_all chatter (fst (run_hooks fp last_time cs))"
proof (induction cs arbitrary: last_time)
  case Nil
  then show ?case by simp
next
  case (Cons c cs)
  show ?case
  proof (cases "progress_hook fp (hc_cancel c) (hc_now c) last_time (hc_d c)")
    case (HookRaises e)
    then show ?thesis by simp
  next
    case (HookDone ms t)
    then have "list_all chatter ms"
      by (auto simp: progress_hook_def Let_def split: if_splits sum.splits)
    with HookDone Cons.IH [of t] show ?thesis
      by (auto split: prod.splits)
  qed
qed

lemma chatter_ydl_download: "list_all chatter (fst (ydl_download fp a))"
  using chatter_run_hooks [of fp 0 "a_calls a"]
  by (auto simp: ydl_download_def split: prod.splits option.splits)

lemma chatter_attempts_seq:
  "list_all chatter (fst (attempts_seq fp env opts video_url video_title i ks))"
proof (induction ks)
  case Nil
  then show ?case by simp
next
  case (Cons k ks)
  obtain hooked raised where d: "ydl_download fp (je_download env opts video_url i k) = (hooked, raised)"
    by (cases "ydl_download fp (je_download env opts video_url i k)")
  with chatter_ydl_download [of fp "je_download env opts video_url i k"]
  have h: "list_all chatter hooked" by simp
  obtain later r where l: "attempts_seq fp env opts video_url video_title i ks = (later, r)"
    by (cases "attempts_seq fp env opts video_url video_title i ks")
  with Cons.IH have "list_all chatter later" by simp
  with h d l show ?case
    by (simp add: Let_def split: option.splits)
qed

lemma chatter_attempts_conc:
  "list_all chatter (fst (attempts_conc fp env opts video_url video_title i ks))"
proof (induction ks)
  case Nil
  then show ?case by simp
next
  case (Cons k ks)
  obtain hooked raised where d: "ydl_download fp (je_download env opts video_url i k) = (hooked, raised)"
    by (cases "ydl_download fp (je_download env opts video_url i k)")
  with chatter_ydl_download [of fp "je_download env opts video_url i k"]
  have h: "list_all chatter hooked" by simp
  obtain later r where l: "attempts_conc fp env opts video_url video_title i ks = (later, r)"
    by (cases "attempts_conc fp env opts video_url video_title i ks")
  with Cons.IH have "list_all chatter later" by simp
  with h d l show ?case
    by (simp add: Let_def split: option.splits)
qed

text \<open>What one pass of the sequential loop puts, by the way it ends.\<close>

lemma process_video_cases:
  obtains (raised) cs e where "process_video fp env format_choice folder i v = (cs, Exc e)"
      "list_all chatter cs"
  | (processed) cs success where
      "process_video fp env format_choice folder i v
         = (cs @ [processed_msg] @ (if success then [downloaded_msg] else []), Ok ())"
      "list_all chatter cs"
proof (cases "je_cancel_video env i")
  case True
  then have "process_video fp env format_choice folder i v = ([], Exc (DownloadCancelled, ''Download cancelled''))"
    by (simp add: process_video_def)
  then show ?thesis using raised by simp
next
  case no_cancel: False
  let ?t = "fmt_field (dict_get (v_title v) (Val ''Unknown video''))"
  let ?d = "[status_msg (''Downloading:  '' @ quoted ?t)]"
  show ?thesis
  proof (cases "get_ffmpeg_path (je_ffmpeg_path env) (je_ffmpeg_found env i)")
    case (Inl e)
    with no_cancel have "process_video fp env format_choice folder i v = (?d, Exc e)"
      by (simp add: process_video_def Let_def)
    then show ?thesis using raised by simp
  next
    case (Inr ffmpeg)
    let ?a = "attempts_seq fp env (make_opts ffmpeg format_choice folder) (video_url_of v) ?t i [1, 2, 3]"
    obtain ms r where a: "?a = (ms, r)" by (cases ?a)
    with chatter_attempts_seq [of fp env "make_opts ffmpeg format_choice folder" "video_url_of v" ?t i "[1, 2, 3]"]
    have c: "list_all chatter ms" by simp
    show ?thesis
    proof (cases r)
      case (Ok success)
      with no_cancel Inr a
      have "process_video fp env format_choice folder i v
              = ((?d @ ms) @ [processed_msg] @ (if success then [downloaded_msg] else []), Ok ())"
        by (simp add: process_video_def Let_def)
      moreover from c have "list_all chatter (?d @ ms)" by simp
      ultimately show ?thesis using processed by blast
    next
      case (Exc e)
      with no_cancel Inr a
      have "process_video fp env format_choice folder i v = (?d @ ms, Exc e)"
        by (simp add: process_video_def Let_def)
      moreover from c have "list_all chatter (?d @ ms)" by simp
      ultimately show ?thesis using raised by blast
    qed
  qed
qed

lemma process_video_item_msgs:
  "list_all item_msg (fst (process_video fp env format_choice folder i v))"
  by (rule process_video_cases [of fp env format_choice folder i v])
    (simp_all add: chatter_item)

lemma process_video_count:
  "count_list (fst (process_video fp env format_choice folder i v)) processed_msg
     = (case snd (process_video fp env format_choice folder i v) of Ok u \<Rightarrow> 1 | Exc e \<Rightarrow> 0)"
  by (rule process_video_cases [of fp env format_choice folder i v])
    (simp_all add: chatter_count)

lemma process_entries_item_msgs:
  "list_all item_msg (fst (process_entries fp env format_choice folder i vs))"
proof (induction vs arbitrary: i)
  case Nil
  then show ?case by simp
next
  case (Cons v vs)
  obtain ms r where p: "process_video fp env format_choice folder i v = (ms, r)"
    by (cases "process_video fp env format_choice folder i v")
  with process_video_item_msgs [of fp env format_choice folder i v]
  have m: "list_all item_msg ms" by simp
  obtain later r' where l: "process_entries fp env format_choice folder (Suc i) vs = (later, r')"
    by (cases "process_entries fp env format_choice folder (Suc i) vs")
  with Cons.IH [of "Suc i"] have "list_all item_msg later" by simp
  with p m l show ?case by (cases r) simp_all
qed

lemma process_entries_count:
  "process_entries fp env format_choice folder i vs = (ms, Ok u)
     \<Longrightarrow> count_list ms processed_msg = length vs"
proof (induction vs arbitrary: i ms)
  case Nil
  then show ?case by simp
next
  case (Cons v vs)
  obtain ms1 r where p: "process_video fp env format_choice folder i v = (ms1, r)"
    by (cases "process_video fp env format_choice folder i v")
  obtain later r' where l: "process_entries fp env format_choice folder (Suc i) vs = (later, r')"
    by (cases "process_entries fp env format_choice folder (Suc i) vs")
  from Cons.prems p l have r: "r = Ok ()" "r' = Ok u" "ms = ms1 @ later"
    by (cases r; simp)+
  from process_video_count [of fp env format_choice folder i v] p r(1)
  have "count_list ms1 processed_msg = 1" by simp
  moreover from Cons.IH [of "Suc i" later] l r(2) have "count_list later processed_msg = length vs"
    by simp
  ultimately show ?case using r(3) by simp
qed

lemma concat_nth_split:
  assumes "w < length xss"
  shows "concat xss = concat (take w xss) @ xss ! w @ concat (drop (Suc w) xss)"
proof -
  have "concat xss = concat (take w xss @ xss ! w # drop (Suc w) xss)"
    using assms by (simp add: id_take_nth_drop [symmetric])
  then show ?thesis by simp
qed

lemma concat_update_split:
  assumes "w < length xss"
  shows "concat (xss[w := ys]) = concat (take w xss) @ ys @ concat (drop (Suc w) xss)"
  using assms by (simp add: upd_conv_take_nth_drop)

text \<open>
  With at least one worker the pool puts every message of every submitted call, each once.
\<close>

lemma mset_run_pool:
  "0 < max_workers \<Longrightarrow>
     mset (run_pool max_workers sched n pending running)
       = mset (concat pending) + mset (concat running)"
proof (induction max_workers sched n pending running rule: run_pool.induct)
  case (1 max_workers sched n pending running)
  show ?case
  proof (cases "pending \<noteq> [] \<and> length running < max_workers")
    case True
    then obtain t ts where p: "pending = t # ts" by (cases pending) auto
    from True have "run_pool max_workers sched n pending running
        = run_pool max_workers sched n (tl pending) (running @ [hd pending])"
      by (subst run_pool.simps) simp
    with "1.IH"(1) [OF True "1.prems"] p show ?thesis by simp
  next
    case not_start: False
    show ?thesis
    proof (cases "running = []")
      case True
      with not_start "1.prems" have "pending = []" by simp
      with True show ?thesis by (subst run_pool.simps) simp
    next
      case busy: False
      define w where "w = sched n mod length running"
      with busy have lt: "w < length running" by simp
      show ?thesis
      proof (cases "running ! w")
        case Nil
        with not_start busy w_def
        have "run_pool max_workers sched n pending running
            = run_pool max_workers sched (Suc n) pending (take w running @ drop (Suc w) running)"
          by (subst run_pool.simps) (auto simp: Let_def)
        moreover from "1.IH"(2) [OF not_start busy w_def Nil "1.prems"]
        have "mset (run_pool max_workers sched (Suc n) pending (take w running @ drop (Suc w) running))
            = mset (concat pending) + mset (concat (take w running @ drop (Suc w) running))" .
        moreover from concat_nth_split [OF lt] Nil
        have "concat running = concat (take w running @ drop (Suc w) running)" by simp
        ultimately show ?thesis by simp
      next
        case (Cons m rest)
        with not_start busy w_def
        have "run_pool max_workers sched n pending running
            = m # run_pool max_workers sched (Suc n) pending (running[w := rest])"
          by (subst run_pool.simps) (auto simp: Let_def)
        moreover from "1.IH"(3) [OF not_start busy w_def Cons "1.prems"]
        have "mset (run_pool max_workers sched (Suc n) pending (running[w := rest]))
            = mset (concat pending) + mset (concat (running[w := rest]))" .
        moreover from concat_nth_split [OF lt] Cons
        have "mset (concat running)
            = mset (concat (take w running)) + add_mset m (mset rest)
              + mset (concat (drop (Suc w) running))" by simp
        moreover from concat_update_split [OF lt, of rest]
        have "mset (concat (running[w := rest]))
            = mset (concat (take w running)) + mset rest + mset (concat (drop (Suc w) running))"
          by simp
        ultimately show ?thesis by simp
      qed
    qed
  qed
qed

lemma count_list_concat:
  "count_list (concat xss) x = sum_list (map (\<lambda>xs. count_list xs x) xss)"
  by (induction xss) simp_all

lemma count_run_pool:
  assumes "0 < max_workers"
  shows "count_list (run_pool max_workers sched n pending []) x
           = sum_list (map (\<lambda>xs. count_list xs x) pending)"
proof -
  have "count_list (run_pool max_workers sched n pending []) x
          = count (mset (run_pool max_workers sched n pending [])) x"
    by (simp add: count_mset)
  also have "\<dots> = count (mset (concat pending)) x"
    by (simp add: mset_run_pool [OF assms])
  also have "\<dots> = sum_list (map (\<lambda>xs. count_list xs x) pending)"
    by (simp add: count_mset count_list_concat)
  finally show ?thesis .
qed

lemma set_run_pool:
  assumes "0 < max_workers"
  shows "set (run_pool max_workers sched n pending []) = set (concat pending)"
proof -
  have "set_mset (mset (run_pool max_workers sched n pending [])) = set_mset (mset (concat pending))"
    by (simp add: mset_run_pool [OF assms])
  then show ?thesis by simp
qed

text \<open>What a worker of the pool puts for its video.\<close>

lemma download_video_shape:
  obtains cs success where
    "download_video fp env opts i v
       = (cs @ [processed_msg] @ (if success then [downloaded_msg] else []), success)"
    "list_all chatter cs"
proof -
  let ?t = "fmt_field (dict_get (v_title v) (Val ''Unknown''))"
  let ?a = "attempts_conc fp env opts (video_url_of v) ?t i [1, 2, 3]"
  obtain ms success where a: "?a = (ms, success)" by (cases ?a)
  with chatter_attempts_conc [of fp env opts "video_url_of v" ?t i "[1, 2, 3]"]
  have "list_all chatter ms" by simp
  moreover from a have "download_video fp env opts i v
       = (ms @ [processed_msg] @ (if success then [downloaded_msg] else []), success)"
    by (simp add: download_video_def Let_def)
  ultimately show ?thesis using that by blast
qed

lemma download_video_item_msgs: "list_all item_msg (fst (download_video fp env opts i v))"
  by (rule download_video_shape [of fp env opts i v]) (simp add: chatter_item)

lemma download_video_count: "count_list (fst (download_video fp env opts i v)) processed_msg = 1"
  by (rule download_video_shape [of fp env opts i v]) (simp add: chatter_count)

lemma futures_item_msgs:
  "list_all item_msg (concat (map (\<lambda>(i, v). fst (download_video fp env opts i v)) ivs))"
  by (induction ivs) (auto simp: download_video_item_msgs)

lemma futures_count:
  "sum_list (map (\<lambda>xs. count_list xs processed_msg)
       (map (\<lambda>(i, v). fst (download_video fp env opts i v)) ivs)) = length ivs"
  by (induction ivs) (auto simp: download_video_count)

lemma status_not_counter [simp]:
  "status_msg t \<noteq> processed_msg" "status_msg t \<noteq> downloaded_msg" "status_msg t \<noteq> thread_end_msg"
  "status_msg t \<noteq> queue_complete_msg pl"
  "processed_msg \<noteq> status_msg t" "downloaded_msg \<noteq> status_msg t" "thread_end_msg \<noteq> status_msg t"
  "queue_complete_msg pl \<noteq> status_msg t"
  by (simp_all add: status_msg_def processed_msg_def downloaded_msg_def thread_end_msg_def
      queue_complete_msg_def)

text \<open>The ways the \<open>try\<close> block of the sequential job ends.\<close>

lemma download_process_try_cases:
  obtains (empty) "entries pl = []"
      "download_process_try fp env pl format_choice base
         = ([status_msg ''Starting downloads'', status_msg ''Empty content''], je_fs env, Ok ())"
  | (aborted) ms fs' e where
      "download_process_try fp env pl format_choice base
         = (status_msg ''Starting downloads'' # ms, fs', Exc e)"
      "list_all item_msg ms"
  | (completed) ms fs' where "entries pl \<noteq> []"
      "process_entries fp env format_choice (unique_folder (je_fs env) base (title pl)) 0 (entries pl)
         = (ms, Ok ())"
      "download_process_try fp env pl format_choice base
         = (status_msg ''Starting downloads'' # ms
              @ [status_msg ''Completed!'', queue_complete_msg pl], fs', Ok ())"
      "list_all item_msg ms"
proof (cases "entries pl = []")
  case True
  then show ?thesis using empty by (simp add: download_process_try_def)
next
  case some: False
  let ?folder = "unique_folder (je_fs env) base (title pl)"
  show ?thesis
  proof (cases "makedirs (je_fs env) (je_makedirs_refusal env) ?folder")
    case (Inl e)
    with some have "download_process_try fp env pl format_choice base
         = (status_msg ''Starting downloads'' # [], je_fs env, Exc e)"
      by (simp add: download_process_try_def Let_def)
    then show ?thesis using aborted by simp
  next
    case (Inr fs')
    obtain ms r where p: "process_entries fp env format_choice ?folder 0 (entries pl) = (ms, r)"
      by (cases "process_entries fp env format_choice ?folder 0 (entries pl)")
    with process_entries_item_msgs [of fp env format_choice ?folder 0 "entries pl"]
    have items: "list_all item_msg ms" by simp
    show ?thesis
    proof (cases r)
      case (Ok u)
      with some Inr p have "download_process_try fp env pl format_choice base
         = (status_msg ''Starting downloads'' # ms
              @ [status_msg ''Completed!'', queue_complete_msg pl], fs', Ok ())"
        by (simp add: download_process_try_def Let_def)
      with some p Ok items show ?thesis using completed by simp
    next
      case (Exc e)
      with some Inr p have "download_process_try fp env pl format_choice base
         = (status_msg ''Starting downloads'' # ms, fs', Exc e)"
        by (simp add: download_process_try_def Let_def)
      with items show ?thesis using aborted by simp
    qed
  qed
qed

lemma download_process_shape:
  "\<exists>ms. fst (download_process fp env pl format_choice base) = ms @ [thread_end_msg]
        \<and> thread_end_msg \<notin> set ms"
proof (cases rule: download_process_try_cases [of pl fp env format_choice base])
  case empty
  then show ?thesis by (simp add: download_process_def)
next
  case (aborted ms fs' e)
  from aborted(2) have "thread_end_msg \<notin> set ms" by (simp add: item_msg_count)
  with aborted(1) show ?thesis by (simp add: download_process_def)
next
  case (completed ms fs')
  from completed(4) have "thread_end_msg \<notin> set ms" by (simp add: item_msg_count)
  with completed(3) show ?thesis by (simp add: download_process_def)
qed

lemma download_process_complete_count:
  assumes "queue_complete_msg pl \<in> set (fst (download_process fp env pl format_choice base))"
  shows "count_list (fst (download_process fp env pl format_choice base)) processed_msg
           = length (entries pl)"
proof (cases rule: download_process_try_cases [of pl fp env format_choice base])
  case empty
  with assms show ?thesis by (simp add: download_process_def)
next
  case (aborted ms fs' e)
  from aborted(2) have "queue_complete_msg pl \<notin> set ms" by (simp add: item_msg_count)
  with assms aborted(1) show ?thesis by (simp add: download_process_def)
next
  case (completed ms fs')
  from process_entries_count [OF completed(2)] completed(3) show ?thesis
    by (simp add: download_process_def)
qed

text \<open>The ways the \<open>try\<close> block of the concurrent job ends.\<close>

lemma download_process_concurrent_try_cases:
  obtains (empty) "entries pl = []"
      "download_process_concurrent_try fp env pl format_choice n base
         = ([status_msg ''Starting downloads'', status_msg ''Empty content''], je_fs env, Ok ())"
  | (aborted) fs' e where
      "download_process_concurrent_try fp env pl format_choice n base
         = ([status_msg ''Starting downloads''], fs', Exc e)"
  | (completed) fs' opts where "entries pl \<noteq> []" "0 < n"
      "download_process_concurrent_try fp env pl format_choice n base
         = (status_msg ''Starting downloads''
              # run_pool n (je_sched env) 0
                  (map (\<lambda>(i, v). fst (download_video fp env opts i v)) (enumerate 0 (entries pl))) []
              @ [status_msg ''Complete!'', queue_complete_msg pl], fs', Ok ())"
proof (cases "entries pl = []")
  case True
  then show ?thesis using empty by (simp add: download_process_concurrent_try_def)
next
  case some: False
  let ?folder = "unique_folder (je_fs env) base (title pl)"
  show ?thesis
  proof (cases "makedirs (je_fs env) (je_makedirs_refusal env) ?folder")
    case (Inl e)
    with some have "download_process_concurrent_try fp env pl format_choice n base
         = ([status_msg ''Starting downloads''], je_fs env, Exc e)"
      by (simp add: download_process_concurrent_try_def Let_def)
    then show ?thesis using aborted by simp
  next
    case (Inr fs')
    show ?thesis
    proof (cases "get_ffmpeg_path (je_ffmpeg_path env) (je_ffmpeg_found env 0)")
      case (Inl e)
      with some Inr have "download_process_concurrent_try fp env pl format_choice n base
         = ([status_msg ''Starting downloads''], fs', Exc e)"
        by (simp add: download_process_concurrent_try_def Let_def)
      then show ?thesis using aborted by simp
    next
      case ffmpeg: (Inr ffmpeg)
      show ?thesis
      proof (cases "n = 0")
        case True
        with some Inr ffmpeg have "download_process_concurrent_try fp env pl format_choice n base
           = ([status_msg ''Starting downloads''], fs',
              Exc (ValueError, ''max_workers must be greater than 0''))"
          by (simp add: download_process_concurrent_try_def Let_def)
        then show ?thesis using aborted by simp
      next
        case False
        with some Inr ffmpeg have "download_process_concurrent_try fp env pl format_choice n base
           = (status_msg ''Starting downloads''
              # run_pool n (je_sched env) 0
                  (map (\<lambda>(i, v). fst (download_video fp env (make_opts ffmpeg format_choice ?folder) i v))
                       (enumerate 0 (entries pl))) []
              @ [status_msg ''Complete!'', queue_complete_msg pl], fs', Ok ())"
          by (simp add: download_process_concurrent_try_def Let_def)
        with some False show ?thesis using completed by simp
      qed
    qed
  qed
qed

lemma download_process_concurrent_shape:
  "\<exists>ms. fst (download_process_concurrent fp env pl format_choice n base) = ms @ [thread_end_msg]
        \<and> thread_end_msg \<notin> set ms"
proof (cases rule: download_process_concurrent_try_cases [of pl fp env format_choice n base])
  case empty
  then show ?thesis by (simp add: download_process_concurrent_def)
next
  case (aborted fs' e)
  then show ?thesis by (simp add: download_process_concurrent_def)
next
  case (completed fs' opts)
  let ?futures = "map (\<lambda>(i, v). fst (download_video fp env opts i v)) (enumerate 0 (entries pl))"
  have items: "list_all item_msg (concat ?futures)" by (rule futures_item_msgs)
  have "thread_end_msg \<notin> set (concat ?futures)"
    using item_msg_count(2) [OF items, of thread_end_msg] by simp
  then have "thread_end_msg \<notin> set (run_pool n (je_sched env) 0 ?futures [])"
    unfolding set_run_pool [OF completed(2)] .
  with completed(3) show ?thesis by (simp add: download_process_concurrent_def)
qed

lemma download_process_concurrent_complete_count:
  assumes "queue_complete_msg pl
             \<in> set (fst (download_process_concurrent fp env pl format_choice n base))"
  shows "count_list (fst (download_process_concurrent fp env pl format_choice n base)) processed_msg
           = length (entries pl)"
proof (cases rule: download_process_concurrent_try_cases [of pl fp env format_choice n base])
  case empty
  with assms show ?thesis by (simp add: download_process_concurrent_def)
next
  case (aborted fs' e)
  with assms show ?thesis by (simp add: download_process_concurrent_def)
next
  case (completed fs' opts)
  let ?futures = "map (\<lambda>(i, v). fst (download_video fp env opts i v)) (enumerate 0 (entries pl))"
  have "count_list (run_pool n (je_sched env) 0 ?futures []) processed_msg = length (entries pl)"
    by (simp only: count_run_pool [OF completed(2)] futures_count length_enumerate)
  with completed(3) show ?thesis by (simp add: download_process_concurrent_def)
qed

lemma count_terminated:
  assumes "put = ms @ [thread_end_msg]" and "thread_end_msg \<notin> set ms"
  shows "count_list put thread_end_msg = 1" and "last put = thread_end_msg"
    and "count_list (terminated_after k put) thread_end_msg = (if k < length put then 0 else 1)"
proof -
  from assms show "count_list put thread_end_msg = 1" by (simp add: count_list_0_iff)
  from assms show "last put = thread_end_msg" by simp
  show "count_list (terminated_after k put) thread_end_msg = (if k < length put then 0 else 1)"
  proof (cases "k < length put")
    case True
    with assms(1) have "terminated_after k put = take k ms" by (simp add: terminated_after_def)
    moreover from assms(2) have "thread_end_msg \<notin> set (take k ms)" by (auto dest: in_set_takeD)
    ultimately show ?thesis using True by (simp add: count_list_0_iff)
  next
    case False
    with assms show ?thesis by (simp add: terminated_after_def count_list_0_iff)
  qed
qed

section \<open>Jobs that are not cancelled\<close>

lemma attempts_seq_returns:
  assumes "\<forall>k. \<not> je_cancel_attempt env i k"
  shows "\<exists>success. snd (attempts_seq fp env opts video_url video_title i ks) = Ok success"
proof (induction ks)
  case Nil
  then show ?case by auto
next
  case (Cons k ks)
  obtain hooked raised where d: "ydl_download fp (je_download env opts video_url i k) = (hooked, raised)"
    by (cases "ydl_download fp (je_download env opts video_url i k)")
  obtain later r where l: "attempts_seq fp env opts video_url video_title i ks = (later, r)"
    by (cases "attempts_seq fp env opts video_url video_title i ks")
  with Cons.IH obtain success where "r = Ok success" by auto
  with assms d l show ?case by (cases raised) (auto simp: Let_def)
qed

lemma attempts_seq_all_fail:
  assumes "\<forall>k. \<not> je_cancel_attempt env i k"
    and "snd (ydl_download fp (je_download env opts video_url i 1)) \<noteq> None"
    and "snd (ydl_download fp (je_download env opts video_url i 2)) \<noteq> None"
    and "snd (ydl_download fp (je_download env opts video_url i 3)) \<noteq> None"
  shows "snd (attempts_seq fp env opts video_url video_title i [1, 2, 3]) = Ok False"
proof -
  obtain h1 e1 where d1: "ydl_download fp (je_download env opts video_url i 1) = (h1, Some e1)"
    using assms(2) by (cases "ydl_download fp (je_download env opts video_url i 1)") auto
  obtain h2 e2 where d2: "ydl_download fp (je_download env opts video_url i 2) = (h2, Some e2)"
    using assms(3) by (cases "ydl_download fp (je_download env opts video_url i 2)") auto
  obtain h3 e3 where d3: "ydl_download fp (je_download env opts video_url i 3) = (h3, Some e3)"
    using assms(4) by (cases "ydl_download fp (je_download env opts video_url i 3)") auto
  from assms(1) d1 d2 d3 show ?thesis by (simp add: Let_def)
qed

lemma attempts_conc_all_fail:
  assumes "snd (ydl_download fp (je_download env opts video_url i 1)) \<noteq> None"
    and "snd (ydl_download fp (je_download env opts video_url i 2)) \<noteq> None"
    and "snd (ydl_download fp (je_download env opts video_url i 3)) \<noteq> None"
  shows "snd (attempts_conc fp env opts video_url video_title i [1, 2, 3]) = False"
proof -
  obtain h1 e1 where d1: "ydl_download fp (je_download env opts video_url i 1) = (h1, Some e1)"
    using assms(1) by (cases "ydl_download fp (je_download env opts video_url i 1)") auto
  obtain h2 e2 where d2: "ydl_download fp (je_download env opts video_url i 2) = (h2, Some e2)"
    using assms(2) by (cases "ydl_download fp (je_download env opts video_url i 2)") auto
  obtain h3 e3 where d3: "ydl_download fp (je_download env opts video_url i 3) = (h3, Some e3)"
    using assms(3) by (cases "ydl_download fp (je_download env opts video_url i 3)") auto
  from d1 d2 d3 show ?thesis by (simp add: Let_def)
qed

lemma process_video_returns:
  assumes "\<not> je_cancel_video env i" and "je_ffmpeg_found env i" and "\<forall>k. \<not> je_cancel_attempt env i k"
  shows "snd (process_video fp env format_choice folder i v) = Ok ()"
proof -
  let ?t = "fmt_field (dict_get (v_title v) (Val ''Unknown video''))"
  let ?a = "attempts_seq fp env (make_opts (je_ffmpeg_path env) format_choice folder)
              (video_url_of v) ?t i [1, 2, 3]"
  obtain ms r where a: "?a = (ms, r)" by (cases ?a)
  with attempts_seq_returns [OF assms(3), of fp "make_opts (je_ffmpeg_path env) format_choice folder"
      "video_url_of v" ?t "[1, 2, 3]"]
  obtain success where "r = Ok success" by auto
  with assms(1,2) a show ?thesis
    by (simp add: process_video_def get_ffmpeg_path_def Let_def)
qed

lemma process_video_failed_item:
  assumes "\<not> je_cancel_video env i" and "je_ffmpeg_found env i" and "\<forall>k. \<not> je_cancel_attempt env i k"
    and "attempt_raises fp env (make_opts (je_ffmpeg_path env) format_choice folder) v i 1"
    and "attempt_raises fp env (make_opts (je_ffmpeg_path env) format_choice folder) v i 2"
    and "attempt_raises fp env (make_opts (je_ffmpeg_path env) format_choice folder) v i 3"
  shows "\<exists>cs. process_video fp env format_choice folder i v = (cs @ [processed_msg], Ok ())
              \<and> list_all chatter cs"
proof -
  let ?t = "fmt_field (dict_get (v_title v) (Val ''Unknown video''))"
  let ?opts = "make_opts (je_ffmpeg_path env) format_choice folder"
  let ?a = "attempts_seq fp env ?opts (video_url_of v) ?t i [1, 2, 3]"
  obtain ms r where a: "?a = (ms, r)" by (cases ?a)
  from attempts_seq_all_fail [OF assms(3), of fp ?opts "video_url_of v" ?t] assms(4,5,6) a
  have r: "r = Ok False" by (simp add: attempt_raises_def)
  from chatter_attempts_seq [of fp env ?opts "video_url_of v" ?t i "[1, 2, 3]"] a
  have "list_all chatter ms" by simp
  then have "list_all chatter (status_msg (''Downloading:  '' @ quoted ?t) # ms)" by simp
  moreover from assms(1,2) a r
  have "process_video fp env format_choice folder i v
          = ((status_msg (''Downloading:  '' @ quoted ?t) # ms) @ [processed_msg], Ok ())"
    by (simp add: process_video_def get_ffmpeg_path_def Let_def)
  ultimately show ?thesis by blast
qed

lemma download_video_failed_item:
  assumes "attempt_raises fp env opts v i 1" and "attempt_raises fp env opts v i 2"
    and "attempt_raises fp env opts v i 3"
  shows "\<exists>cs. download_video fp env opts i v = (cs @ [processed_msg], False) \<and> list_all chatter cs"
proof -
  let ?t = "fmt_field (dict_get (v_title v) (Val ''Unknown''))"
  let ?a = "attempts_conc fp env opts (video_url_of v) ?t i [1, 2, 3]"
  obtain ms r where a: "?a = (ms, r)" by (cases ?a)
  from attempts_conc_all_fail [of fp env opts "video_url_of v" i ?t] assms a
  have r: "\<not> r" by (simp add: attempt_raises_def)
  from chatter_attempts_conc [of fp env opts "video_url_of v" ?t i "[1, 2, 3]"] a
  have "list_all chatter ms" by simp
  moreover from a r have "download_video fp env opts i v = (ms @ [processed_msg], False)"
    by (simp add: download_video_def Let_def)
  ultimately show ?thesis by blast
qed

lemma process_entries_returns:
  assumes "\<forall>j. \<not> je_cancel_video env j" and "\<forall>j. je_ffmpeg_found env j"
    and "\<forall>j k. \<not> je_cancel_attempt env j k"
  shows "process_entries fp env format_choice folder i vs
           = (concat (map (\<lambda>(j, v). fst (process_video fp env format_choice folder j v))
                (enumerate i vs)), Ok ())"
proof (induction vs arbitrary: i)
  case Nil
  then show ?case by simp
next
  case (Cons v vs)
  obtain ms r where p: "process_video fp env format_choice folder i v = (ms, r)"
    by (cases "process_video fp env format_choice folder i v")
  from assms have "snd (process_video fp env format_choice folder i v) = Ok ()"
    by (intro process_video_returns) simp_all
  with p have "r = Ok ()" by simp
  with p Cons.IH [of "Suc i"] show ?case by simp
qed

lemma download_process_completes:
  assumes "\<forall>j. \<not> je_cancel_video env j" and "\<forall>j. je_ffmpeg_found env j"
    and "\<forall>j k. \<not> je_cancel_attempt env j k" and "je_makedirs_refusal env = None"
    and "entries pl \<noteq> []"
  shows "download_process_try fp env pl format_choice base
           = (status_msg ''Starting downloads''
                # concat (map (\<lambda>(j, v). fst (process_video fp env format_choice
                                   (unique_folder (je_fs env) base (title pl)) j v))
                     (enumerate 0 (entries pl)))
                @ [status_msg ''Completed!'', queue_complete_msg pl],
              unique_folder (je_fs env) base (title pl) # je_fs env, Ok ())"
  using assms(4,5)
  by (simp add: download_process_try_def Let_def makedirs_unique_folder
      process_entries_returns [OF assms(1,2,3)])

lemma download_process_concurrent_completes:
  assumes "je_ffmpeg_found env 0" and "je_makedirs_refusal env = None" and "entries pl \<noteq> []"
    and "0 < n"
  shows "download_process_concurrent_try fp env pl format_choice n base
           = (status_msg ''Starting downloads''
                # run_pool n (je_sched env) 0
                    (map (\<lambda>(j, v). fst (download_video fp env
                            (make_opts (je_ffmpeg_path env) format_choice
                               (unique_folder (je_fs env) base (title pl))) j v))
                       (enumerate 0 (entries pl))) []
                @ [status_msg ''Complete!'', queue_complete_msg pl],
              unique_folder (je_fs env) base (title pl) # je_fs env, Ok ())"
  using assms
  by (simp add: download_process_concurrent_try_def Let_def makedirs_unique_folder
      get_ffmpeg_path_def)

lemma quiet_hooks:
  "ydl_download exact_ops (je_download quiet_env opts u 0 k)
     = ([file_progress_msg 50, file_progress_msg 100], None)"
  "ydl_download exact_ops (je_download quiet_env opts u (Suc 0) k) = ([], Some (DownloadError, ''HTTP Error 403''))"
  by (simp_all add: quiet_env_def ydl_download_def a_call_def progress_hook_def file_progress_def
      dict_get_def py_or_def truthy_def exact_ops_def py_int_def Let_def)

lemma digits_2_3: "str_nat (Suc 0) = ''1''" "str_nat 2 = ''2''" "str_nat 3 = ''3''"
  by code_simp+

lemma quiet_env_fields:
  "je_cancel_video quiet_env i = False" "je_cancel_attempt quiet_env i k = False"
  "je_ffmpeg_found quiet_env i = True" "je_makedirs_refusal quiet_env = None"
  "je_ffmpeg_path quiet_env = ''/app/bin/ffmpeg.exe''" "je_sched quiet_env n = n"
  by (simp_all add: quiet_env_def)

lemma quiet_videos:
  "process_video exact_ops quiet_env format_choice folder 0 (a_video ''a1'' ''First'')
     = ([status_msg (''Downloading:  '' @ quoted ''First''), file_progress_msg 50, file_progress_msg 100,
         processed_msg, downloaded_msg], Ok ())"
  "process_video exact_ops quiet_env format_choice folder (Suc 0) (a_video ''b2'' ''Second'')
     = ([status_msg (''Downloading:  '' @ quoted ''Second''),
         status_msg (''Retrying download of '' @ quoted ''Second'' @ '' (2/3)''),
         status_msg (''Retrying download of '' @ quoted ''Second'' @ '' (3/3)''),
         status_msg (''Download failed '' @ quoted ''Second''),
         status_msg ''Processing downloads'',
         processed_msg], Ok ())"
  by (simp_all add: process_video_def quiet_env_fields quiet_hooks get_ffmpeg_path_def a_video_def
      dict_get_def fmt_field_def Let_def digits_2_3)

lemma quiet_run_sequential:
  "fst (download_process exact_ops quiet_env song_list ''mp3'' ''/d'')
     = [status_msg ''Starting downloads'',
        status_msg (''Downloading:  '' @ quoted ''First''), file_progress_msg 50, file_progress_msg 100,
        processed_msg, downloaded_msg,
        status_msg (''Downloading:  '' @ quoted ''Second''),
        status_msg (''Retrying download of '' @ quoted ''Second'' @ '' (2/3)''),
        status_msg (''Retrying download of '' @ quoted ''Second'' @ '' (3/3)''),
        status_msg (''Download failed '' @ quoted ''Second''),
        status_msg ''Processing downloads'',
        processed_msg,
        status_msg ''Completed!'', queue_complete_msg song_list, thread_end_msg]"
proof -
  have "entries song_list = [a_video ''a1'' ''First'', a_video ''b2'' ''Second'']"
    by (simp add: song_list_def)
  then show ?thesis
    by (simp add: download_process_def download_process_try_def Let_def makedirs_unique_folder
        quiet_env_fields quiet_videos)
qed

lemma quiet_workers:
  "fst (download_video exact_ops quiet_env opts 0 (a_video ''a1'' ''First''))
     = [file_progress_msg 50, file_progress_msg 100, processed_msg, downloaded_msg]"
  "fst (download_video exact_ops quiet_env opts (Suc 0) (a_video ''b2'' ''Second''))
     = [status_msg (''Retrying download of '' @ quoted ''Second'' @ '' (1/3)''),
        status_msg (''Retrying download of '' @ quoted ''Second'' @ '' (2/3)''),
        status_msg (''Retrying download of '' @ quoted ''Second'' @ '' (3/3)''),
        status_msg (''Failed to download '' @ quoted ''Second''),
        status_msg ''Processing downloads'',
        processed_msg]"
  by (simp_all add: download_video_def quiet_hooks a_video_def dict_get_def fmt_field_def Let_def
      digits_2_3)

lemma quiet_run_concurrent:
  "fst (download_process_concurrent exact_ops quiet_env song_list ''mp3'' 2 ''/d'')
     = [status_msg ''Starting downloads'',
        file_progress_msg 50,
        status_msg (''Retrying download of '' @ quoted ''Second'' @ '' (1/3)''),
        file_progress_msg 100,
        status_msg (''Retrying download of '' @ quoted ''Second'' @ '' (2/3)''),
        processed_msg,
        status_msg (''Retrying download of '' @ quoted ''Second'' @ '' (3/3)''),
        downloaded_msg,
        status_msg (''Failed to download '' @ quoted ''Second''),
        status_msg ''Processing downloads'',
        processed_msg,
        status_msg ''Complete!'', queue_complete_msg song_list, thread_end_msg]"
  by code_simp

section \<open>The claims about a job's messages\<close>

text \<open>
  Claim C1 says that every job execution, a cancelled one too, emits \<open>-THREAD-END-\<close>
  exactly once and last. The branch for \<open>-CANCEL-\<close> sets the event and then calls
  \<open>download_proc.terminate()\<close>, which stops the job without running its \<open>finally\<close>
  clause: a job terminated after its third message has put no \<open>-THREAD-END-\<close>.
\<close>

theorem terminated_job_puts_no_thread_end:
  "terminated_after 3 (fst (download_process exact_ops quiet_env song_list ''mp3'' ''/d''))
     = [status_msg ''Starting downloads'', status_msg (''Downloading:  '' @ quoted ''First''),
        file_progress_msg 50]
   \<and> count_list (terminated_after 3 (fst (download_process exact_ops quiet_env song_list ''mp3'' ''/d'')))
         thread_end_msg = 0"
proof -
  have "terminated_after 3 (fst (download_process exact_ops quiet_env song_list ''mp3'' ''/d''))
     = [status_msg ''Starting downloads'', status_msg (''Downloading:  '' @ quoted ''First''),
        file_progress_msg 50]"
    by (simp add: quiet_run_sequential terminated_after_def)
  then show ?thesis
    by (simp add: file_progress_msg_def status_msg_def thread_end_msg_def)
qed

text \<open>
  Claim C1 as amended: every job that runs to its end, in either strategy and however it
  ends (completed, empty, stopped by an exception, or stopped because the job itself saw
  the cancel event), puts \<open>-THREAD-END-\<close> exactly once, as its last message. Of a job that
  is terminated, the queue holds \<open>-THREAD-END-\<close> only if the job had already put all its
  messages.
\<close>

theorem thread_end_once_and_last:
  "count_list (fst (download_process fp env pl format_choice base)) thread_end_msg = 1
   \<and> last (fst (download_process fp env pl format_choice base)) = thread_end_msg
   \<and> count_list (fst (download_process_concurrent fp env pl format_choice n base)) thread_end_msg = 1
   \<and> last (fst (download_process_concurrent fp env pl format_choice n base)) = thread_end_msg
   \<and> count_list (terminated_after k (fst (download_process fp env pl format_choice base)))
         thread_end_msg
       = (if k < length (fst (download_process fp env pl format_choice base)) then 0 else 1)
   \<and> count_list (terminated_after k (fst (download_process_concurrent fp env pl format_choice n base)))
         thread_end_msg
       = (if k < length (fst (download_process_concurrent fp env pl format_choice n base))
          then 0 else 1)"
proof -
  obtain ms where s: "fst (download_process fp env pl format_choice base) = ms @ [thread_end_msg]"
      "thread_end_msg \<notin> set ms"
    using download_process_shape by blast
  obtain ms' where c: "fst (download_process_concurrent fp env pl format_choice n base)
        = ms' @ [thread_end_msg]" "thread_end_msg \<notin> set ms'"
    using download_process_concurrent_shape by blast
  from count_terminated [OF s] count_terminated [OF c] show ?thesis by blast
qed

theorem thread_end_once_and_last_witness:
  "count_list (fst (download_process exact_ops quiet_env song_list ''mp3'' ''/d'')) thread_end_msg = 1
   \<and> last (fst (download_process_concurrent exact_ops quiet_env song_list ''mp3'' 2 ''/d''))
       = thread_end_msg
   \<and> length (fst (download_process exact_ops quiet_env song_list ''mp3'' ''/d'')) = 15
   \<and> count_list (terminated_after 14 (fst (download_process exact_ops quiet_env song_list ''mp3'' ''/d'')))
        thread_end_msg = 0"
proof -
  have "length (fst (download_process exact_ops quiet_env song_list ''mp3'' ''/d'')) = 15"
    by (simp add: quiet_run_sequential)
  with thread_end_once_and_last [of exact_ops quiet_env song_list "''mp3''" "''/d''" 2 14]
  show ?thesis by simp
qed

text \<open>
  Claim C2: a job that runs to its end, which is when it puts \<open>-QUEUE-COMPLETE-\<close>, has put
  \<open>-PROCESSED-PROGRESS-\<close> exactly once per item, in the sequential job and in the concurrent
  job with any number of workers, whatever the order in which the workers run. The
  sequential job runs to its end when no checkpoint sees the cancel event, ffmpeg is found
  and the folder can be created; the concurrent job when ffmpeg is found, the folder can be
  created and there is at least one worker.
\<close>

theorem processed_once_per_item:
  "(queue_complete_msg pl \<in> set (fst (download_process fp env pl format_choice base))
      \<longrightarrow> count_list (fst (download_process fp env pl format_choice base)) processed_msg
            = length (entries pl))
   \<and> (queue_complete_msg pl \<in> set (fst (download_process_concurrent fp env pl format_choice n base))
      \<longrightarrow> count_list (fst (download_process_concurrent fp env pl format_choice n base)) processed_msg
            = length (entries pl))
   \<and> ((\<forall>j. \<not> je_cancel_video env j) \<and> (\<forall>j k. \<not> je_cancel_attempt env j k)
        \<and> (\<forall>j. je_ffmpeg_found env j) \<and> je_makedirs_refusal env = None \<and> entries pl \<noteq> []
      \<longrightarrow> queue_complete_msg pl \<in> set (fst (download_process fp env pl format_choice base)))
   \<and> (0 < n \<and> je_ffmpeg_found env 0 \<and> je_makedirs_refusal env = None \<and> entries pl \<noteq> []
      \<longrightarrow> queue_complete_msg pl
            \<in> set (fst (download_process_concurrent fp env pl format_choice n base)))"
proof -
  have "queue_complete_msg pl \<in> set (fst (download_process fp env pl format_choice base))"
    if "\<forall>j. \<not> je_cancel_video env j" "\<forall>j k. \<not> je_cancel_attempt env j k"
      "\<forall>j. je_ffmpeg_found env j" "je_makedirs_refusal env = None" "entries pl \<noteq> []"
    using download_process_completes [OF that(1,3,2,4,5), of fp format_choice base]
    by (simp add: download_process_def)
  moreover have "queue_complete_msg pl
      \<in> set (fst (download_process_concurrent fp env pl format_choice n base))"
    if "0 < n" "je_ffmpeg_found env 0" "je_makedirs_refusal env = None" "entries pl \<noteq> []"
    using download_process_concurrent_completes [OF that(2,3,4,1), of fp format_choice base]
    by (simp add: download_process_concurrent_def)
  ultimately show ?thesis
    using download_process_complete_count [of pl fp env format_choice base]
      download_process_concurrent_complete_count [of pl fp env format_choice n base]
    by blast
qed

theorem processed_once_per_item_witness:
  "queue_complete_msg song_list \<in> set (fst (download_process exact_ops quiet_env song_list ''mp3'' ''/d''))
   \<and> queue_complete_msg song_list
       \<in> set (fst (download_process_concurrent exact_ops quiet_env song_list ''mp3'' 2 ''/d''))
   \<and> length (entries song_list) = 2
   \<and> count_list (fst (download_process exact_ops quiet_env song_list ''mp3'' ''/d'')) processed_msg = 2
   \<and> count_list (fst (download_process_concurrent exact_ops quiet_env song_list ''mp3'' 2 ''/d''))
        processed_msg = 2"
proof -
  have a: "queue_complete_msg song_list
      \<in> set (fst (download_process exact_ops quiet_env song_list ''mp3'' ''/d''))"
    by (simp add: quiet_run_sequential)
  have b: "queue_complete_msg song_list
      \<in> set (fst (download_process_concurrent exact_ops quiet_env song_list ''mp3'' 2 ''/d''))"
    by (simp add: quiet_run_concurrent)
  have c: "length (entries song_list) = 2" by (simp add: song_list_def)
  from processed_once_per_item [of song_list exact_ops quiet_env "''mp3''" "''/d''" 2] a b c
  show ?thesis by simp
qed

text \<open>
  Claim C7: when no checkpoint sees the cancel event, ffmpeg is found and the folder can be
  created, an item whose download raises in all three attempts gets \<open>-PROCESSED-PROGRESS-\<close>
  and no \<open>-DOWNLOADED-PROGRESS-\<close>, and its pass of the loop ends normally. The job then puts
  the messages of every item in order, followed by \<open>Completed!\<close>, \<open>-QUEUE-COMPLETE-\<close> and
  \<open>-THREAD-END-\<close>; its \<open>try\<close> block ends without an exception. A worker of the concurrent
  job treats such an item the same way.
\<close>

theorem failed_item_does_not_fail_the_job:
  assumes "\<forall>j. \<not> je_cancel_video env j" and "\<forall>j k. \<not> je_cancel_attempt env j k"
    and "\<forall>j. je_ffmpeg_found env j" and "je_makedirs_refusal env = None" and "entries pl \<noteq> []"
    and "folder = unique_folder (je_fs env) base (title pl)"
    and "opts = make_opts (je_ffmpeg_path env) format_choice folder"
    and "attempt_raises fp env opts v i 1" and "attempt_raises fp env opts v i 2"
    and "attempt_raises fp env opts v i 3"
  shows "snd (process_video fp env format_choice folder i v) = Ok ()
       \<and> count_list (fst (process_video fp env format_choice folder i v)) processed_msg = 1
       \<and> downloaded_msg \<notin> set (fst (process_video fp env format_choice folder i v))
       \<and> fst (download_process fp env pl format_choice base)
           = status_msg ''Starting downloads''
             # concat (map (\<lambda>(j, v). fst (process_video fp env format_choice folder j v))
                          (enumerate 0 (entries pl)))
             @ [status_msg ''Completed!'', queue_complete_msg pl, thread_end_msg]
       \<and> snd (snd (download_process_try fp env pl format_choice base)) = Ok ()
       \<and> snd (download_video fp env opts i v) = False
       \<and> count_list (fst (download_video fp env opts i v)) processed_msg = 1
       \<and> downloaded_msg \<notin> set (fst (download_video fp env opts i v))"
proof -
  from assms(1,2,3) have here: "\<not> je_cancel_video env i" "je_ffmpeg_found env i"
    "\<forall>k. \<not> je_cancel_attempt env i k" by simp_all
  from process_video_failed_item [OF here, of fp format_choice folder v] assms(7,8,9,10)
  obtain cs where pv: "process_video fp env format_choice folder i v = (cs @ [processed_msg], Ok ())"
    and cs: "list_all chatter cs" by auto
  from cs have "count_list cs processed_msg = 0" "count_list cs downloaded_msg = 0"
    by (simp_all add: chatter_count)
  with pv have one: "snd (process_video fp env format_choice folder i v) = Ok ()"
    "count_list (fst (process_video fp env format_choice folder i v)) processed_msg = 1"
    "downloaded_msg \<notin> set (fst (process_video fp env format_choice folder i v))"
    by (simp_all add: count_list_0_iff)
  from download_video_failed_item [OF assms(8,9,10)]
  obtain ds where dv: "download_video fp env opts i v = (ds @ [processed_msg], False)"
    and ds: "list_all chatter ds" by auto
  from ds have "count_list ds processed_msg = 0" "count_list ds downloaded_msg = 0"
    by (simp_all add: chatter_count)
  with dv have two: "snd (download_video fp env opts i v) = False"
    "count_list (fst (download_video fp env opts i v)) processed_msg = 1"
    "downloaded_msg \<notin> set (fst (download_video fp env opts i v))"
    by (simp_all add: count_list_0_iff)
  from download_process_completes [OF assms(1,3,2,4,5), of fp format_choice base] assms(6)
  have job: "fst (download_process fp env pl format_choice base)
           = status_msg ''Starting downloads''
             # concat (map (\<lambda>(j, v). fst (process_video fp env format_choice folder j v))
                          (enumerate 0 (entries pl)))
             @ [status_msg ''Completed!'', queue_complete_msg pl, thread_end_msg]"
    "snd (snd (download_process_try fp env pl format_choice base)) = Ok ()"
    by (simp_all add: download_process_def)
  from one two job show ?thesis by simp
qed

theorem failed_item_does_not_fail_the_job_witness:
  "attempt_raises exact_ops quiet_env
      (make_opts (je_ffmpeg_path quiet_env) ''mp3'' (unique_folder (je_fs quiet_env) ''/d'' (title song_list)))
      (a_video ''b2'' ''Second'') 1 3
   \<and> snd (process_video exact_ops quiet_env ''mp3''
            (unique_folder (je_fs quiet_env) ''/d'' (title song_list)) 1 (a_video ''b2'' ''Second'')) = Ok ()
   \<and> downloaded_msg \<notin> set (fst (process_video exact_ops quiet_env ''mp3''
            (unique_folder (je_fs quiet_env) ''/d'' (title song_list)) 1 (a_video ''b2'' ''Second'')))
   \<and> fst (download_process exact_ops quiet_env song_list ''mp3'' ''/d'')
       = [status_msg ''Starting downloads'',
          status_msg (''Downloading:  '' @ quoted ''First''), file_progress_msg 50, file_progress_msg 100,
          processed_msg, downloaded_msg,
          status_msg (''Downloading:  '' @ quoted ''Second''),
          status_msg (''Retrying download of '' @ quoted ''Second'' @ '' (2/3)''),
          status_msg (''Retrying download of '' @ quoted ''Second'' @ '' (3/3)''),
          status_msg (''Download failed '' @ quoted ''Second''),
          status_msg ''Processing downloads'',
          processed_msg,
          status_msg ''Completed!'', queue_complete_msg song_list, thread_end_msg]"
proof -
  let ?folder = "unique_folder (je_fs quiet_env) ''/d'' (title song_list)"
  let ?opts = "make_opts (je_ffmpeg_path quiet_env) ''mp3'' ?folder"
  have env: "\<forall>j. \<not> je_cancel_video quiet_env j" "\<forall>j k. \<not> je_cancel_attempt quiet_env j k"
    "\<forall>j. je_ffmpeg_found quiet_env j" "je_makedirs_refusal quiet_env = None"
    "entries song_list \<noteq> []"
    by (simp_all add: quiet_env_fields song_list_def)
  have fails: "attempt_raises exact_ops quiet_env ?opts (a_video ''b2'' ''Second'') 1 k" for k
    using quiet_hooks(2) [of ?opts "video_url_of (a_video ''b2'' ''Second'')" k]
    by (simp add: attempt_raises_def)
  from failed_item_does_not_fail_the_job [OF env refl refl fails fails fails]
    fails [of 3] quiet_run_sequential
  show ?thesis by simp
qed

end
